theory Spec2Isabelle
  imports Main "HOL-Library.Sublist" "HOL-Library.AList"
begin

section \<open>The deferred-execution pipeline engine: a shallow embedding\<close>

text \<open>
  The development follows \<^verbatim>\<open>dataset/pipeline.py\<close> and \<^verbatim>\<open>dataset/decorators.py\<close>.
  Python exceptions are values of the type \<open>exn\<close>; a function that may raise returns
  \<open>exn + 'a\<close> with \<open>Inl\<close> for the exception raised. Only subclasses of \<^verbatim>\<open>Exception\<close> are
  modelled (no \<^verbatim>\<open>KeyboardInterrupt\<close> or interpreter exit). Messages are kept without
  their inner quotation marks.
\<close>

datatype exn =
    ValueError string
  | RuntimeError string
  | TypeError string
  | AttributeError string
  | KeyError string
  | IndexError string
  | UnboundLocalError string
  | SkipBatchException
  | Raised nat  \<comment> \<open>any other exception raised by user code, told apart by a number\<close>

subsection \<open>Look-ahead resources of \<^verbatim>\<open>Pipeline.gen_batch\<close>\<close>

datatype pool_kind = ThreadPoolExecutor | ProcessPoolExecutor

record executor =
  pool :: pool_kind
  max_workers :: int

record prefetch_resources =
  rs_executor :: executor
  rs_prefetch_count_maxsize :: int
  rs_prefetch_queue_maxsize :: int
  rs_batch_queue_maxsize :: int
  rs_service_executor :: executor

text \<open>
  Lines 653--668 of \<^verbatim>\<open>gen_batch\<close>: what is created before the first unit is produced.
  \<open>None\<close> is the branch \<^verbatim>\<open>prefetch <= 0\<close>, where nothing is created and units are executed
  one after the other on the calling thread.
\<close>

definition gen_batch_setup :: "string \<Rightarrow> int \<Rightarrow> exn + prefetch_resources option" where
  "gen_batch_setup target prefetch =
     (if prefetch > 0 then
        (let prefetch = min prefetch 62 in
         (case (if target \<in> set [''threads'', ''t'']
                  then Inr \<lparr>pool = ThreadPoolExecutor, max_workers = prefetch + 1\<rparr>
                else if target \<in> set [''mpc'', ''m'']
                  then Inr \<lparr>pool = ProcessPoolExecutor, max_workers = prefetch + 1\<rparr>
                else Inl (ValueError ''target should be one of [threads, mpc]'')) of
            Inl e \<Rightarrow> Inl e
          | Inr ex \<Rightarrow>
              Inr (Some \<lparr>rs_executor = ex,
                         rs_prefetch_count_maxsize = prefetch + 1,
                         rs_prefetch_queue_maxsize = prefetch,
                         rs_batch_queue_maxsize = 1,
                         rs_service_executor =
                           \<lparr>pool = ThreadPoolExecutor, max_workers = 2\<rparr>\<rparr>)))
      else Inr None)"

subsection \<open>The consumer stage: \<^verbatim>\<open>Pipeline._run_batches_from_queue\<close>\<close>

text \<open>
  What \<^verbatim>\<open>future.result()\<close> does for a finished handle: it returns the executed unit or
  raises the exception the execution ended with.
\<close>

datatype 'b future = Returns 'b | Raises exn

text \<open>
  The locals of the consumer and what it has done so far. \<open>cs_batch\<close> is the local
  variable \<^verbatim>\<open>batch\<close>, \<open>None\<close> while no assignment has bound it. \<open>cs_batch_queue\<close> lists
  what has been put on \<^verbatim>\<open>_batch_queue\<close>, oldest first, \<open>None\<close> being the end marker (the
  caller takes one item at a time, so a \<^verbatim>\<open>put\<close> never blocks for ever). \<open>cs_printed\<close> lists
  the exceptions printed with their tracebacks.
\<close>

record 'b consumer =
  cs_skip_batch :: bool
  cs_batch :: "'b option"
  cs_batch_queue :: "'b option list"
  cs_printed :: "exn list"
  cs_tasks_done :: nat

datatype consumer_end =
    Ended          \<comment> \<open>the end marker was read and forwarded\<close>
  | Waiting        \<comment> \<open>blocked in \<^verbatim>\<open>_prefetch_queue.get\<close>: nothing more to read\<close>
  | Died exn       \<comment> \<open>an exception left the function; the worker is gone\<close>

definition consumer_start :: "'b consumer" where
  "consumer_start =
     \<lparr>cs_skip_batch = False, cs_batch = None, cs_batch_queue = [], cs_printed = [],
      cs_tasks_done = 0\<rparr>"

text \<open>The \<^verbatim>\<open>try\<close> block with its two handlers (lines 563--570).\<close>

fun consumer_try :: "'b future \<Rightarrow> 'b consumer \<Rightarrow> 'b consumer" where
  "consumer_try (Returns b) st = st\<lparr>cs_batch := Some b\<rparr>"
| "consumer_try (Raises SkipBatchException) st = st\<lparr>cs_skip_batch := True\<rparr>"
| "consumer_try (Raises e) st = st\<lparr>cs_printed := cs_printed st @ [e]\<rparr>"

text \<open>
  The \<^verbatim>\<open>finally\<close> block (lines 571--575). Reading \<^verbatim>\<open>batch\<close> before any assignment raises
  \<^verbatim>\<open>UnboundLocalError\<close>.
\<close>

definition consumer_finally :: "'b consumer \<Rightarrow> exn + 'b consumer" where
  "consumer_finally st =
     (if \<not> cs_skip_batch st then
        (case cs_batch st of
           None \<Rightarrow> Inl (UnboundLocalError ''batch'')
         | Some b \<Rightarrow>
             Inr (st\<lparr>cs_batch_queue := cs_batch_queue st @ [Some b],
                     cs_skip_batch := False,
                     cs_tasks_done := cs_tasks_done st + 1\<rparr>))
      else Inr (st\<lparr>cs_tasks_done := cs_tasks_done st + 1\<rparr>))"

text \<open>
  The loop, over what the producer puts on \<^verbatim>\<open>_prefetch_queue\<close> (\<open>None\<close> is the end
  marker), with the stop flag clear.
\<close>

fun run_batches_from_queue ::
  "'b future option list \<Rightarrow> 'b consumer \<Rightarrow> consumer_end \<times> 'b consumer" where
  "run_batches_from_queue [] st = (Waiting, st)"
| "run_batches_from_queue (None # rest) st =
     (Ended, st\<lparr>cs_tasks_done := cs_tasks_done st + 1,
                 cs_batch_queue := cs_batch_queue st @ [None]\<rparr>)"
| "run_batches_from_queue (Some fut # rest) st =
     (case consumer_finally (consumer_try fut st) of
        Inl e \<Rightarrow> (Died e, consumer_try fut st)
      | Inr st' \<Rightarrow> run_batches_from_queue rest st')"

subsection \<open>Action records\<close>

text \<open>
  An action record is a Python dictionary with string keys. The values stored under its
  keys are of these kinds: \<^verbatim>\<open>None\<close>, a string (the name), an integer (the repeat count),
  a probability, the tuple of positional arguments, the dictionary of keyword arguments,
  and a reference to another object (the nested pipeline). Probabilities are kept in a
  type of their own, of which only the product is used.
\<close>

datatype ('v, 'p) pyval =
    PNone
  | PStr string
  | PInt int
  | PFloat 'p
  | PTuple "'v list"
  | PDict "(string \<times> 'v) list"
  | PObj nat

type_synonym ('v, 'p) pydict = "string \<rightharpoonup> ('v, 'p) pyval"

definition getitem :: "('v, 'p) pydict \<Rightarrow> string \<Rightarrow> exn + ('v, 'p) pyval" where
  "getitem d k = (case d k of None \<Rightarrow> Inl (KeyError k) | Some v \<Rightarrow> Inr v)"

definition PIPELINE_ID :: string where
  "PIPELINE_ID = ''#_pipeline''"

fun mult_option :: "'a::times option \<Rightarrow> 'a option \<Rightarrow> 'a option" where
  "mult_option (Some a) (Some b) = Some (a * b)"
| "mult_option (Some a) None = Some a"
| "mult_option None b = b"

subsection \<open>Executing one action: \<^verbatim>\<open>_needs_exec\<close> and \<^verbatim>\<open>_exec_one_action\<close>\<close>

text \<open>
  A unit (batch) carries the pipeline it is bound to and its data. What running a unit
  changes outside it is the world \<open>'w\<close>. \<open>rs_calls\<close> records the names of the action
  methods invoked, in order, so that invocations can be counted.
\<close>

record 'x batch =
  b_pipeline :: "nat option"
  b_data :: 'x

record ('g, 'w) run_state =
  rs_rng :: 'g
  rs_world :: 'w
  rs_calls :: "string list"

text \<open>
  \<^verbatim>\<open>np.random.binomial(n, p)\<close> is outside the repository: it is the parameter \<open>np_binomial\<close>,
  which draws from the generator state \<open>'g\<close> and may refuse its arguments.
\<close>

definition needs_exec ::
  "(nat \<Rightarrow> 'p \<Rightarrow> 'g \<Rightarrow> (exn + nat) \<times> 'g) \<Rightarrow> ('v, 'p) pydict \<Rightarrow> 'g \<Rightarrow> (exn + bool) \<times> 'g" where
  "needs_exec np_binomial action g =
     (case getitem action ''proba'' of
        Inl e \<Rightarrow> (Inl e, g)
      | Inr PNone \<Rightarrow> (Inr True, g)
      | Inr (PFloat p) \<Rightarrow>
          (case np_binomial 1 p g of
             (Inl e, g') \<Rightarrow> (Inl e, g')
           | (Inr k, g') \<Rightarrow> (Inr (k = 1), g'))
      | Inr _ \<Rightarrow> (Inl (TypeError ''proba''), g))"

text \<open>
  The number of rounds of \<^verbatim>\<open>for _ in range(action['repeat'] or 1)\<close>. Python's \<^verbatim>\<open>or\<close>
  takes its right operand when the left one is falsy: \<^verbatim>\<open>None\<close> and also \<^verbatim>\<open>0\<close>. A negative
  range is empty.
\<close>

definition repeat_count :: "('v, 'p) pydict \<Rightarrow> exn + nat" where
  "repeat_count action =
     (case getitem action ''repeat'' of
        Inl e \<Rightarrow> Inl e
      | Inr PNone \<Rightarrow> Inr 1
      | Inr (PInt n) \<Rightarrow> Inr (if n = 0 then 1 else nat n)
      | Inr _ \<Rightarrow> Inl (TypeError ''repeat''))"

text \<open>
  \<^verbatim>\<open>_get_action_method\<close> looks the name up on the unit by reflection. The unit's class is
  outside the repository; \<open>attrs\<close> gives, for a unit and a name, which of the four cases
  of the lookup applies.
\<close>

datatype 'm attr = Missing | NotCallable | Unmarked | ActionMethod 'm

type_synonym ('x, 'v, 'w) action_method =
  "'x batch \<Rightarrow> 'v list \<Rightarrow> (string \<times> 'v) list \<Rightarrow> 'w \<Rightarrow> (exn + 'x batch) \<times> 'w"

definition get_action_method ::
  "('x batch \<Rightarrow> string \<Rightarrow> 'm attr) \<Rightarrow> 'x batch \<Rightarrow> string \<Rightarrow> exn + 'm" where
  "get_action_method attrs batch name =
     (case attrs batch name of
        Missing \<Rightarrow> Inl (AttributeError name)
      | NotCallable \<Rightarrow> Inl (TypeError name)
      | Unmarked \<Rightarrow> Inl (ValueError name)
      | ActionMethod m \<Rightarrow> Inr m)"

text \<open>The body of the loop of \<^verbatim>\<open>_exec_one_action\<close>, run \<open>n\<close> times.\<close>

fun exec_rounds ::
  "nat \<Rightarrow> ('x batch \<Rightarrow> string \<Rightarrow> ('x, 'v, 'w) action_method attr) \<Rightarrow> nat \<Rightarrow>
   ('v, 'p) pydict \<Rightarrow> 'v list \<Rightarrow> (string \<times> 'v) list \<Rightarrow> 'x batch \<Rightarrow> ('g, 'w) run_state \<Rightarrow>
   (exn + 'x batch) \<times> ('g, 'w) run_state" where
  "exec_rounds 0 attrs self action args kwargs batch st = (Inr batch, st)"
| "exec_rounds (Suc n) attrs self action args kwargs batch st =
     (let batch = batch\<lparr>b_pipeline := Some self\<rparr> in
      case getitem action ''name'' of
        Inr (PStr name) \<Rightarrow>
          (case get_action_method attrs batch name of
             Inl e \<Rightarrow> (Inl e, st)
           | Inr action_method \<Rightarrow>
               (case action_method batch args kwargs (rs_world st) of
                  (Inl e, w) \<Rightarrow> (Inl e, st\<lparr>rs_world := w, rs_calls := rs_calls st @ [name]\<rparr>)
                | (Inr batch', w) \<Rightarrow>
                    exec_rounds n attrs self action args kwargs
                      (batch'\<lparr>b_pipeline := Some self\<rparr>)
                      (st\<lparr>rs_world := w, rs_calls := rs_calls st @ [name]\<rparr>)))
      | Inr _ \<Rightarrow> (Inl (TypeError ''name''), st)
      | Inl e \<Rightarrow> (Inl e, st))"

definition exec_one_action ::
  "(nat \<Rightarrow> 'p \<Rightarrow> 'g \<Rightarrow> (exn + nat) \<times> 'g) \<Rightarrow>
   ('x batch \<Rightarrow> string \<Rightarrow> ('x, 'v, 'w) action_method attr) \<Rightarrow> nat \<Rightarrow>
   'x batch \<Rightarrow> ('v, 'p) pydict \<Rightarrow> 'v list \<Rightarrow> (string \<times> 'v) list \<Rightarrow> ('g, 'w) run_state \<Rightarrow>
   (exn + 'x batch) \<times> ('g, 'w) run_state" where
  "exec_one_action np_binomial attrs self batch action args kwargs st =
     (case needs_exec np_binomial action (rs_rng st) of
        (Inl e, g) \<Rightarrow> (Inl e, st\<lparr>rs_rng := g\<rparr>)
      | (Inr False, g) \<Rightarrow> (Inr batch, st\<lparr>rs_rng := g\<rparr>)
      | (Inr True, g) \<Rightarrow>
          (case repeat_count action of
             Inl e \<Rightarrow> (Inl e, st\<lparr>rs_rng := g\<rparr>)
           | Inr n \<Rightarrow> exec_rounds n attrs self action args kwargs batch (st\<lparr>rs_rng := g\<rparr>)))"

text \<open>
  A unit class for the examples: its one action \<^verbatim>\<open>inc\<close> adds one to the data. The
  generator of the examples is the list of the draws to come.
\<close>

definition counter_attrs :: "nat batch \<Rightarrow> string \<Rightarrow> (nat, 'v, unit) action_method attr" where
  "counter_attrs b name =
     (if name = ''inc''
      then ActionMethod (\<lambda>b args kwargs w. (Inr (b\<lparr>b_data := b_data b + 1\<rparr>), w))
      else Missing)"

definition list_binomial :: "nat \<Rightarrow> 'p \<Rightarrow> nat list \<Rightarrow> (exn + nat) \<times> nat list" where
  "list_binomial n p g =
     (case g of [] \<Rightarrow> (Inl (ValueError ''np_binomial''), []) | k # g' \<Rightarrow> (Inr k, g'))"

definition inc_action :: "('v, 'p) pyval \<Rightarrow> ('v, 'p) pyval \<Rightarrow> ('v, 'p) pydict" where
  "inc_action proba repeat =
     [''name'' \<mapsto> PStr ''inc'', ''args'' \<mapsto> PTuple [], ''kwargs'' \<mapsto> PDict [],
      ''proba'' \<mapsto> proba, ''repeat'' \<mapsto> repeat]"

subsection \<open>The parallel dispatcher: \<^verbatim>\<open>inbatch_parallel\<close>\<close>







type_synonym 'v kwargs = "string \<rightharpoonup> 'v"























subsection \<open>The model directory: \<^verbatim>\<open>ModelDirectory\<close>\<close>

text \<open>
  \<^verbatim>\<open>ModelDirectory.models\<close> is a dictionary from the mode to a dictionary from the owning
  pipeline (or \<^verbatim>\<open>None\<close>) to a dictionary from the model method to the model specification.
  Pipelines and model methods are compared by identity: a pipeline is the number of its
  object, a model method a value of \<open>'m\<close>.
\<close>

type_synonym ('m, 's) directory = "string \<rightharpoonup> (nat option \<rightharpoonup> ('m \<rightharpoonup> 's))"

record 'm method_spec =
  ms_mode :: string
  ms_engine :: string
  ms_method :: 'm
  ms_name :: string
  ms_pipeline :: "nat option"

definition get_method_fullname :: "string \<Rightarrow> string \<Rightarrow> string" where
  "get_method_fullname module qualname = module @ ''.'' @ qualname"

definition add_model ::
  "'m method_spec \<Rightarrow> 's \<Rightarrow> ('m, 's) directory \<Rightarrow> exn + ('m, 's) directory" where
  "add_model method_spec model_spec models =
     (let mode = ms_mode method_spec; model_method = ms_method method_spec;
          pipeline = ms_pipeline method_spec
      in case models mode of
           None \<Rightarrow> Inl (KeyError mode)
         | Some by_pipeline \<Rightarrow>
             (let by_pipeline = (if by_pipeline pipeline = None
                                 then by_pipeline(pipeline \<mapsto> Map.empty) else by_pipeline)
              in case by_pipeline pipeline of
                   None \<Rightarrow> Inl (KeyError ''pipeline'')
                 | Some by_method \<Rightarrow>
                     Inr (models(mode \<mapsto>
                            by_pipeline(pipeline \<mapsto> by_method(model_method \<mapsto> model_spec))))))"

definition model_exists :: "'m method_spec \<Rightarrow> ('m, 's) directory \<Rightarrow> exn + bool" where
  "model_exists method_spec models =
     (let mode = ms_mode method_spec; model_method = ms_method method_spec;
          pipeline = ms_pipeline method_spec
      in case models mode of
           None \<Rightarrow> Inl (KeyError mode)
         | Some by_pipeline \<Rightarrow>
             Inr (case by_pipeline pipeline of
                    None \<Rightarrow> False
                  | Some by_method \<Rightarrow> by_method model_method \<noteq> None))"

definition get_model ::
  "'m method_spec \<Rightarrow> nat option \<Rightarrow> ('m, 's) directory \<Rightarrow> exn + 's" where
  "get_model method_spec pipeline models =
     (let mode = ms_mode method_spec; model_method = ms_method method_spec;
          pipeline = (if pipeline \<noteq> None then pipeline else ms_pipeline method_spec);
          pipeline = (if mode = ''global'' then None else pipeline)
      in case models mode of
           None \<Rightarrow> Inl (KeyError mode)
         | Some by_pipeline \<Rightarrow>
             (case by_pipeline pipeline of
                None \<Rightarrow> Inl (ValueError ''Model not found in the pipeline'')
              | Some by_method \<Rightarrow>
                  (case by_method model_method of
                     None \<Rightarrow> Inl (ValueError ''Model not found in the pipeline'')
                   | Some model_spec \<Rightarrow> Inr model_spec)))"

text \<open>
  \<^verbatim>\<open>equal_names\<close> compares a name with the tail of the same length of a full name. The
  name is a string, or a callable, of which the full name is taken. Python's slice
  \<^verbatim>\<open>s[-n:]\<close> is the last \<open>n\<close> items of \<open>s\<close>, the whole of \<open>s\<close> when \<open>s\<close> is shorter, and
  also the whole of \<open>s\<close> when \<open>n\<close> is 0.
\<close>

datatype model_name = NameStr string | NameCallable string string

definition slice_last :: "nat \<Rightarrow> 'a list \<Rightarrow> 'a list" where
  "slice_last n s = (if n = 0 then s else drop (length s - n) s)"

fun key_name :: "model_name \<Rightarrow> string" where
  "key_name (NameStr n) = n"
| "key_name (NameCallable module qualname) = get_method_fullname module qualname"

definition equal_names :: "model_name \<Rightarrow> string \<Rightarrow> bool" where
  "equal_names model_name model_ref =
     (let name = key_name model_name
      in slice_last (length name) model_ref = name)"

subsection \<open>Resolving a model: \<^verbatim>\<open>_model_wrapper\<close>\<close>

text \<open>
  A configuration is a dictionary from strings to values; the configuration of a
  pipeline is a dictionary from model names to configurations (or \<^verbatim>\<open>None\<close>), kept as the
  list of its items in the order of iteration.
\<close>

type_synonym 'c config = "string \<rightharpoonup> 'c"

type_synonym 'c full_config = "(model_name \<times> 'c config option) list"

definition or_dict :: "'c config option \<Rightarrow> 'c config" where
  "or_dict c = (case c of None \<Rightarrow> Map.empty | Some d \<Rightarrow> d)"

text \<open>
  The merge as the specification words it, for comparison with the code: the matched
  configuration merged with the configuration of the call, the values of the call
  winning.
\<close>

definition merge_call_wins :: "'c config option \<Rightarrow> 'c config option \<Rightarrow> 'c config" where
  "merge_call_wins matched call key =
     (case (case call of None \<Rightarrow> None | Some config_a \<Rightarrow> config_a key) of
        Some v \<Rightarrow> Some v
      | None \<Rightarrow> (case matched of None \<Rightarrow> None | Some config_p \<Rightarrow> config_p key))"

text \<open>Lines 232--241: the configuration the model method is called with.\<close>

definition resolve_config ::
  "'c full_config option \<Rightarrow> string \<Rightarrow> 'c config option \<Rightarrow> exn + 'c config option" where
  "resolve_config full_config full_model_name config =
     (case full_config of
        None \<Rightarrow> Inr config
      | Some full_config \<Rightarrow>
          (let model_names = [model_key \<leftarrow> map fst full_config.
                                equal_names model_key full_model_name]
           in if length model_names > 1 then
                Inl (ValueError ''Ambigous config contains several keys with similar names'')
              else if length model_names = 1 then
                (case map_of full_config (hd model_names) of
                   None \<Rightarrow> Inl (KeyError ''model_names[0]'')
                 | Some c \<Rightarrow>
                     (let config_p = or_dict c; config_a = or_dict config
                      in Inr (Some (config_p ++ config_a))))
              else Inr config))"

text \<open>
  The model method is called with the pipeline (static mode) or with the unit (dynamic
  mode), and with the configuration unless it is \<^verbatim>\<open>None\<close>. It acts on the world \<open>'w\<close> and may
  raise. The registry state holds the directory, the world, and the list of the calls of
  the model method made so far, each with its arguments and with what it returned or
  raised.
\<close>

datatype 'x builder_arg = PipelineArg "nat option" | SelfArg "'x batch"

type_synonym ('x, 'c, 's, 'w) builder =
  "'x builder_arg \<Rightarrow> 'c config option \<Rightarrow> 'w \<Rightarrow> (exn + 's) \<times> 'w"

record ('m, 's, 'x, 'c, 'w) registry =
  rg_models :: "('m, 's) directory"
  rg_world :: 'w
  rg_built :: "('x builder_arg \<times> 'c config option \<times> (exn + 's)) list"

text \<open>
  What the decorator \<^verbatim>\<open>model(mode, engine)\<close> closes over: the mode and the engine, the
  decorated method with its module and qualified name, and the wrapper itself, which is
  the key in the directory. \<open>wr_config_of\<close> reads the attribute \<^verbatim>\<open>config\<close> of a pipeline
  object.
\<close>

record ('m, 's, 'x, 'c, 'w) wrapper =
  wr_mode :: string
  wr_engine :: string
  wr_method :: "('x, 'c, 's, 'w) builder"
  wr_module :: string
  wr_qualname :: string
  wr_model_wrapper :: 'm
  wr_config_of :: "nat \<Rightarrow> 'c full_config option"

definition get_method_spec ::
  "('m, 's, 'x, 'c, 'w) wrapper \<Rightarrow> nat option \<Rightarrow> 'm method_spec" where
  "get_method_spec wr pipeline =
     \<lparr>ms_mode = wr_mode wr, ms_engine = wr_engine wr, ms_method = wr_model_wrapper wr,
      ms_name = get_method_fullname (wr_module wr) (wr_qualname wr), ms_pipeline = pipeline\<rparr>"

text \<open>
  Lines 229--245: what runs under the lock once the model is found missing, up to the
  return of the model method.
\<close>

definition build_model ::
  "('m, 's, 'x, 'c, 'w) wrapper \<Rightarrow> 'x batch \<Rightarrow> 'c config option \<Rightarrow>
   ('m, 's, 'x, 'c, 'w) registry \<Rightarrow> (exn + 's) \<times> ('m, 's, 'x, 'c, 'w) registry" where
  "build_model wr self config rg =
     (let pipeline = b_pipeline self in
      case (case pipeline of
              None \<Rightarrow> Inr config
            | Some p \<Rightarrow>
                resolve_config (wr_config_of wr p)
                  (get_method_fullname (wr_module wr) (wr_qualname wr)) config) of
        Inl e \<Rightarrow> (Inl e, rg)
      | Inr config \<Rightarrow>
          (let arg = (if wr_mode wr = ''static'' then PipelineArg pipeline else SelfArg self)
           in case wr_method wr arg config (rg_world rg) of
                (r, w) \<Rightarrow> (r, rg\<lparr>rg_world := w, rg_built := rg_built rg @ [(arg, config, r)]\<rparr>)))"

text \<open>The number of calls of the model method that returned a model.\<close>

definition built_ok :: "('m, 's, 'x, 'c, 'w) registry \<Rightarrow> nat" where
  "built_ok rg = length (filter (\<lambda>call. \<not> isl (snd (snd call))) (rg_built rg))"

definition store_model ::
  "('m, 's, 'x, 'c, 'w) wrapper \<Rightarrow> 'x batch \<Rightarrow> 's \<Rightarrow>
   ('m, 's, 'x, 'c, 'w) registry \<Rightarrow> exn + ('m, 's, 'x, 'c, 'w) registry" where
  "store_model wr self model_spec rg =
     (case add_model (get_method_spec wr (b_pipeline self)) model_spec (rg_models rg) of
        Inl e \<Rightarrow> Inl e
      | Inr models \<Rightarrow> Inr (rg\<lparr>rg_models := models\<rparr>))"

text \<open>The wrapper run by one caller alone, from its entry to its return.\<close>

definition model_wrapper ::
  "('m, 's, 'x, 'c, 'w) wrapper \<Rightarrow> 'x batch \<Rightarrow> 'c config option \<Rightarrow>
   ('m, 's, 'x, 'c, 'w) registry \<Rightarrow> (exn + 's) \<times> ('m, 's, 'x, 'c, 'w) registry" where
  "model_wrapper wr self config rg =
     (if wr_mode wr = ''global'' then
        (get_model (get_method_spec wr None) None (rg_models rg), rg)
      else if wr_mode wr \<in> set [''static'', ''dynamic''] then
        (let pipeline = b_pipeline self;
             method_spec = get_method_spec wr pipeline
         in case model_exists method_spec (rg_models rg) of
              Inl e \<Rightarrow> (Inl e, rg)
            | Inr True \<Rightarrow> (get_model method_spec pipeline (rg_models rg), rg)
            | Inr False \<Rightarrow>
                (case model_exists method_spec (rg_models rg) of
                   Inl e \<Rightarrow> (Inl e, rg)
                 | Inr True \<Rightarrow> (get_model method_spec pipeline (rg_models rg), rg)
                 | Inr False \<Rightarrow>
                     (case build_model wr self config rg of
                        (Inl e, rg) \<Rightarrow> (Inl e, rg)
                      | (Inr model_spec, rg) \<Rightarrow>
                          (case store_model wr self model_spec rg of
                             Inl e \<Rightarrow> (Inl e, rg)
                           | Inr rg \<Rightarrow>
                               (get_model method_spec pipeline (rg_models rg), rg)))))
      else (Inl (ValueError ''Unknown mode''), rg))"

text \<open>The directory as the class body creates it (line 34), and objects for the examples.\<close>

definition MODEL_MODES :: "string list" where
  "MODEL_MODES = [''global'', ''static'', ''dynamic'']"

definition models_start :: "('m, 's) directory" where
  "models_start = map_of (zip MODEL_MODES (map (\<lambda>_. Map.empty) [0..<length MODEL_MODES]))"

definition ex_builder :: "(nat, nat, nat, nat) builder" where
  "ex_builder arg config w =
     (case config of
        None \<Rightarrow> (Inl (Raised 3), w + 1)
      | Some c \<Rightarrow> (Inr (100 * w + (case c ''lr'' of None \<Rightarrow> 0 | Some v \<Rightarrow> v)), w + 1))"

definition ex_wrapper :: "nat full_config \<Rightarrow> (nat, nat, nat, nat, nat) wrapper" where
  "ex_wrapper fc =
     \<lparr>wr_mode = ''dynamic'', wr_engine = ''tf'', wr_method = ex_builder,
      wr_module = ''nets'', wr_qualname = ''Batch.model'', wr_model_wrapper = 0,
      wr_config_of = (\<lambda>p. Some fc)\<rparr>"

definition ex_registry :: "(nat, nat, nat, nat, nat) registry" where
  "ex_registry = \<lparr>rg_models = models_start, rg_world = 0, rg_built = []\<rparr>"

definition fc_two :: "nat full_config" where
  "fc_two = [(NameStr ''model'', Some [''lr'' \<mapsto> 1]), (NameStr ''Batch.model'', None)]"

definition fc_empty_key :: "nat full_config" where
  "fc_empty_key = [(NameStr [], Some [''lr'' \<mapsto> 1]), (NameStr ''model'', Some [''lr'' \<mapsto> 2])]"

definition fc_one :: "nat full_config" where
  "fc_one = [(NameStr ''model'', Some [''lr'' \<mapsto> 3, ''depth'' \<mapsto> 2]), (NameStr ''other'', None)]"

subsection \<open>Callers racing through \<^verbatim>\<open>_model_wrapper\<close>\<close>

text \<open>
  Several callers run the wrapper of one model method at once. Each is at one of the
  places below; a step of a caller runs it to its next place, and a schedule, the list
  of the callers that step, is one interleaving. The places: before the first test of
  \<^verbatim>\<open>model_exists\<close> (line 225); waiting for \<^verbatim>\<open>_pipeline_model_lock\<close> (line 226); holding the
  lock before the second test (line 227); about to build (lines 229--245); about to
  store the model built (line 247); leaving the \<^verbatim>\<open>with\<close> block; about to read the model
  (line 248); returned or raised. An exception under the lock releases the lock.
\<close>

datatype 's pc =
    Start
  | AtLock
  | Locked
  | Building
  | Storing 's
  | Unlocking
  | Fetching
  | Done "exn + 's"

definition pc_step ::
  "('m, 's, 'x, 'c, 'w) wrapper \<Rightarrow> 'x batch \<Rightarrow> 'c config option \<Rightarrow> nat \<Rightarrow>
   's pc \<times> nat option \<times> ('m, 's, 'x, 'c, 'w) registry \<Rightarrow>
   's pc \<times> nat option \<times> ('m, 's, 'x, 'c, 'w) registry" where
  "pc_step wr self config i st =
     (case st of (pc, lock, rg) \<Rightarrow>
        (let pipeline = b_pipeline self; method_spec = get_method_spec wr pipeline in
         case pc of
           Start \<Rightarrow>
             (if wr_mode wr = ''global'' then
                (Done (get_model (get_method_spec wr None) None (rg_models rg)), lock, rg)
              else if wr_mode wr \<in> set [''static'', ''dynamic''] then
                (case model_exists method_spec (rg_models rg) of
                   Inl e \<Rightarrow> (Done (Inl e), lock, rg)
                 | Inr True \<Rightarrow> (Fetching, lock, rg)
                 | Inr False \<Rightarrow> (AtLock, lock, rg))
              else (Done (Inl (ValueError ''Unknown mode'')), lock, rg))
         | AtLock \<Rightarrow>
             (case lock of
                None \<Rightarrow> (Locked, Some i, rg)
              | Some holder \<Rightarrow> (AtLock, lock, rg))
         | Locked \<Rightarrow>
             (case model_exists method_spec (rg_models rg) of
                Inl e \<Rightarrow> (Done (Inl e), None, rg)
              | Inr True \<Rightarrow> (Unlocking, lock, rg)
              | Inr False \<Rightarrow> (Building, lock, rg))
         | Building \<Rightarrow>
             (case build_model wr self config rg of
                (Inl e, rg') \<Rightarrow> (Done (Inl e), None, rg')
              | (Inr model_spec, rg') \<Rightarrow> (Storing model_spec, lock, rg'))
         | Storing model_spec \<Rightarrow>
             (case store_model wr self model_spec rg of
                Inl e \<Rightarrow> (Done (Inl e), None, rg)
              | Inr rg' \<Rightarrow> (Unlocking, lock, rg'))
         | Unlocking \<Rightarrow> (Fetching, None, rg)
         | Fetching \<Rightarrow> (Done (get_model method_spec pipeline (rg_models rg)), lock, rg)
         | Done r \<Rightarrow> (Done r, lock, rg)))"

text \<open>
  The whole system: the registry, the caller that holds the lock, and the place of each
  caller. The callers are given by their arguments \<^verbatim>\<open>self\<close> and \<^verbatim>\<open>config\<close>.
\<close>

record ('m, 's, 'x, 'c, 'w) system =
  sy_registry :: "('m, 's, 'x, 'c, 'w) registry"
  sy_lock :: "nat option"
  sy_pcs :: "'s pc list"

definition thread_step ::
  "('m, 's, 'x, 'c, 'w) wrapper \<Rightarrow> ('x batch \<times> 'c config option) list \<Rightarrow> nat \<Rightarrow>
   ('m, 's, 'x, 'c, 'w) system \<Rightarrow> ('m, 's, 'x, 'c, 'w) system" where
  "thread_step wr callers i sy =
     (if i < length (sy_pcs sy) \<and> i < length callers then
        (case pc_step wr (fst (callers ! i)) (snd (callers ! i)) i
                (sy_pcs sy ! i, sy_lock sy, sy_registry sy) of
           (pc, lock, rg) \<Rightarrow>
             \<lparr>sy_registry = rg, sy_lock = lock, sy_pcs = (sy_pcs sy)[i := pc]\<rparr>)
      else sy)"

fun run_schedule ::
  "('m, 's, 'x, 'c, 'w) wrapper \<Rightarrow> ('x batch \<times> 'c config option) list \<Rightarrow> nat list \<Rightarrow>
   ('m, 's, 'x, 'c, 'w) system \<Rightarrow> ('m, 's, 'x, 'c, 'w) system" where
  "run_schedule wr callers [] sy = sy"
| "run_schedule wr callers (i # sched) sy =
     run_schedule wr callers sched (thread_step wr callers i sy)"

definition system_start ::
  "('m, 's, 'x, 'c, 'w) registry \<Rightarrow> nat \<Rightarrow> ('m, 's, 'x, 'c, 'w) system" where
  "system_start rg n = \<lparr>sy_registry = rg, sy_lock = None, sy_pcs = replicate n Start\<rparr>"

text \<open>Classes of places, for the invariant of the proofs below.\<close>

fun holds_lock :: "'s pc \<Rightarrow> bool" where
  "holds_lock Locked = True"
| "holds_lock Building = True"
| "holds_lock (Storing s) = True"
| "holds_lock Unlocking = True"
| "holds_lock _ = False"

fun found_missing :: "'s pc \<Rightarrow> bool" where
  "found_missing Building = True"
| "found_missing (Storing s) = True"
| "found_missing _ = False"

fun is_storing :: "'s pc \<Rightarrow> bool" where
  "is_storing (Storing s) = True"
| "is_storing _ = False"

definition ex_callers :: "(nat batch \<times> nat config option) list" where
  "ex_callers = [(\<lparr>b_pipeline = Some 4, b_data = 0\<rparr>, Some [''lr'' \<mapsto> 5]),
                 (\<lparr>b_pipeline = Some 4, b_data = 1\<rparr>, None)]"


definition resolve_concurrently ::
  "('m, 's, 'x, 'c, 'w) wrapper \<Rightarrow> ('x batch \<times> 'c config option) list \<Rightarrow>
   ('m, 's, 'x, 'c, 'w) registry \<Rightarrow> nat list \<Rightarrow> ('m, 's, 'x, 'c, 'w) system" where
  "resolve_concurrently wr callers rg sched =
     run_schedule wr callers sched (system_start rg (length callers))"

text \<open>
  The invariant of every interleaving: a caller under the lock is the holder of the
  lock; a caller that is building or storing has the model still missing; and the calls
  of the model method that returned are at most \<open>n0\<close>, plus one when the model is stored
  or about to be.
\<close>

definition builder_inv ::
  "('m, 's, 'x, 'c, 'w) wrapper \<Rightarrow> ('x batch \<times> 'c config option) list \<Rightarrow> nat option \<Rightarrow> nat \<Rightarrow>
   ('m, 's, 'x, 'c, 'w) system \<Rightarrow> bool" where
  "builder_inv wr callers owner n0 sy \<longleftrightarrow>
     length (sy_pcs sy) = length callers
   \<and> (\<forall>i<length (sy_pcs sy). holds_lock (sy_pcs sy ! i) \<longrightarrow> sy_lock sy = Some i)
   \<and> (\<forall>i<length (sy_pcs sy). found_missing (sy_pcs sy ! i) \<longrightarrow>
         model_exists (get_method_spec wr owner) (rg_models (sy_registry sy)) = Inr False)
   \<and> built_ok (sy_registry sy) \<le>
         n0 + (if model_exists (get_method_spec wr owner) (rg_models (sy_registry sy)) = Inr True
                  \<or> list_ex is_storing (sy_pcs sy) then 1 else 0)"

subsection \<open>Pipelines and their action lists\<close>

text \<open>
  Pipelines, their action lists and the action records are objects that are shared and
  changed in place, so they live in a heap, at references. A list object holds the
  references of its records. Of a pipeline object the fields kept are the data source,
  the configuration, the reference of the action list, the variables and the lazy run.
\<close>

record ('d, 'c, 'x, 'r) pipeline =
  p_dataset :: "'d option"
  p_config :: "'c option"
  p_action_list :: nat
  p_variables :: "string \<rightharpoonup> 'x"
  p_lazy_run :: "'r option"

record ('v, 'p, 'd, 'c, 'x, 'r) heap =
  h_lists :: "nat \<rightharpoonup> nat list"
  h_dicts :: "nat \<rightharpoonup> ('v, 'p) pydict"
  h_pipes :: "nat \<rightharpoonup> ('d, 'c, 'x, 'r) pipeline"
  h_next :: nat

text \<open>New objects take the next free reference.\<close>

definition alloc_list ::
  "nat list \<Rightarrow> ('v, 'p, 'd, 'c, 'x, 'r) heap \<Rightarrow> nat \<times> ('v, 'p, 'd, 'c, 'x, 'r) heap" where
  "alloc_list xs h =
     (h_next h, h\<lparr>h_lists := (h_lists h)(h_next h \<mapsto> xs), h_next := Suc (h_next h)\<rparr>)"

definition alloc_dict ::
  "('v, 'p) pydict \<Rightarrow> ('v, 'p, 'd, 'c, 'x, 'r) heap \<Rightarrow> nat \<times> ('v, 'p, 'd, 'c, 'x, 'r) heap" where
  "alloc_dict d h =
     (h_next h, h\<lparr>h_dicts := (h_dicts h)(h_next h \<mapsto> d), h_next := Suc (h_next h)\<rparr>)"

definition alloc_pipe ::
  "('d, 'c, 'x, 'r) pipeline \<Rightarrow> ('v, 'p, 'd, 'c, 'x, 'r) heap \<Rightarrow>
   nat \<times> ('v, 'p, 'd, 'c, 'x, 'r) heap" where
  "alloc_pipe p h =
     (h_next h, h\<lparr>h_pipes := (h_pipes h)(h_next h \<mapsto> p), h_next := Suc (h_next h)\<rparr>)"

text \<open>
  \<^verbatim>\<open>Pipeline.__init__\<close> without a \<^verbatim>\<open>pipeline\<close> argument (lines 37--43), and with one (lines
  45--56). The copy takes a new list object with the same records (\<^verbatim>\<open>_action_list[:]\<close>);
  with a probability or a repeat count and exactly one record, it writes into that
  record, which the source pipeline shares. The end of \<^verbatim>\<open>__init__\<close> (the import of the
  static models of the source pipeline and \<^verbatim>\<open>reset_iter\<close>) reads and writes neither an
  action list nor the data source of a pipeline, and is not part of this model.
\<close>

definition init_new ::
  "'d option \<Rightarrow> 'c option \<Rightarrow> ('v, 'p, 'd, 'c, 'x, 'r) heap \<Rightarrow>
   nat \<times> ('v, 'p, 'd, 'c, 'x, 'r) heap" where
  "init_new dataset config h =
     (case alloc_list [] h of
        (l, h) \<Rightarrow>
          alloc_pipe \<lparr>p_dataset = dataset, p_config = config, p_action_list = l,
                      p_variables = Map.empty, p_lazy_run = None\<rparr> h)"

definition as_float :: "('v, 'p) pyval \<Rightarrow> exn + 'p option" where
  "as_float v = (case v of PNone \<Rightarrow> Inr None | PFloat q \<Rightarrow> Inr (Some q)
                 | _ \<Rightarrow> Inl (TypeError ''proba''))"

definition as_int :: "('v, 'p) pyval \<Rightarrow> exn + int option" where
  "as_int v = (case v of PNone \<Rightarrow> Inr None | PInt n \<Rightarrow> Inr (Some n)
               | _ \<Rightarrow> Inl (TypeError ''repeat''))"

definition py_float :: "'p option \<Rightarrow> ('v, 'p) pyval" where
  "py_float x = (case x of None \<Rightarrow> PNone | Some q \<Rightarrow> PFloat q)"

definition py_int :: "int option \<Rightarrow> ('v, 'p) pyval" where
  "py_int x = (case x of None \<Rightarrow> PNone | Some n \<Rightarrow> PInt n)"

definition set_last_action ::
  "nat \<Rightarrow> string \<Rightarrow> ('v, 'p) pyval \<Rightarrow> ('v, 'p, 'd, 'c, 'x, 'r) heap \<Rightarrow>
   exn + ('v, 'p, 'd, 'c, 'x, 'r) heap" where
  "set_last_action d key v h =
     (case h_dicts h d of
        None \<Rightarrow> Inl (AttributeError ''action'')
      | Some action \<Rightarrow> Inr (h\<lparr>h_dicts := (h_dicts h)(d \<mapsto> action(key \<mapsto> v))\<rparr>))"

definition get_last_action ::
  "nat \<Rightarrow> string \<Rightarrow> ('v, 'p, 'd, 'c, 'x, 'r) heap \<Rightarrow> exn + ('v, 'p) pyval" where
  "get_last_action d key h =
     (case h_dicts h d of
        None \<Rightarrow> Inl (AttributeError ''action'')
      | Some action \<Rightarrow> getitem action key)"

definition tag_last_action ::
  "nat \<Rightarrow> 'p::times option \<Rightarrow> int option \<Rightarrow> ('v, 'p, 'd, 'c, 'x, 'r) heap \<Rightarrow>
   exn + ('v, 'p, 'd, 'c, 'x, 'r) heap" where
  "tag_last_action d proba repeat h =
     (case proba of
        Some pr \<Rightarrow>
          (case get_last_action d ''repeat'' h of
             Inl e \<Rightarrow> Inl e
           | Inr PNone \<Rightarrow>
               (case get_last_action d ''proba'' h of
                  Inl e \<Rightarrow> Inl e
                | Inr v \<Rightarrow>
                    (case as_float v of
                       Inl e \<Rightarrow> Inl e
                     | Inr q \<Rightarrow>
                         set_last_action d ''proba'' (py_float (mult_option (Some pr) q)) h))
           | Inr _ \<Rightarrow> Inr h)
      | None \<Rightarrow>
          (case repeat of
             Some r \<Rightarrow>
               (case get_last_action d ''proba'' h of
                  Inl e \<Rightarrow> Inl e
                | Inr PNone \<Rightarrow>
                    (case get_last_action d ''repeat'' h of
                       Inl e \<Rightarrow> Inl e
                     | Inr v \<Rightarrow>
                         (case as_int v of
                            Inl e \<Rightarrow> Inl e
                          | Inr n \<Rightarrow>
                              set_last_action d ''repeat'' (py_int (mult_option (Some r) n)) h))
                | Inr _ \<Rightarrow> Inr h)
           | None \<Rightarrow> Inr h))"

definition init_copy ::
  "nat \<Rightarrow> 'p::times option \<Rightarrow> int option \<Rightarrow> ('v, 'p, 'd, 'c, 'x, 'r) heap \<Rightarrow>
   exn + nat \<times> ('v, 'p, 'd, 'c, 'x, 'r) heap" where
  "init_copy pipeline proba repeat h =
     (case h_pipes h pipeline of
        None \<Rightarrow> Inl (AttributeError ''pipeline'')
      | Some src \<Rightarrow>
          (case h_lists h (p_action_list src) of
             None \<Rightarrow> Inl (AttributeError ''_action_list'')
           | Some actions \<Rightarrow>
               (case alloc_list actions h of
                  (l, h) \<Rightarrow>
                    (case (if length actions = 1
                           then tag_last_action (last actions) proba repeat h
                           else Inr h) of
                       Inl e \<Rightarrow> Inl e
                     | Inr h \<Rightarrow>
                         Inr (alloc_pipe
                                \<lparr>p_dataset = p_dataset src, p_config = p_config src,
                                 p_action_list = l, p_variables = p_variables src,
                                 p_lazy_run = p_lazy_run src\<rparr> h)))))"

text \<open>
  The test \<^verbatim>\<open>pipeline.num_actions == 1 and pipeline.get_last_action_...() is None\<close> of
  \<^verbatim>\<open>from_pipeline\<close>.
\<close>

definition single_untagged ::
  "nat \<Rightarrow> string \<Rightarrow> ('v, 'p, 'd, 'c, 'x, 'r) heap \<Rightarrow> exn + bool" where
  "single_untagged pipeline key h =
     (case h_pipes h pipeline of
        None \<Rightarrow> Inl (AttributeError ''pipeline'')
      | Some src \<Rightarrow>
          (case h_lists h (p_action_list src) of
             None \<Rightarrow> Inl (AttributeError ''_action_list'')
           | Some actions \<Rightarrow>
               (if length actions = 1 then
                  (case get_last_action (last actions) key h of
                     Inl e \<Rightarrow> Inl e
                   | Inr PNone \<Rightarrow> Inr True
                   | Inr _ \<Rightarrow> Inr False)
                else Inr False)))"

definition append_pipeline ::
  "nat \<Rightarrow> nat \<Rightarrow> 'p option \<Rightarrow> int option \<Rightarrow> ('v, 'p, 'd, 'c, 'x, 'r) heap \<Rightarrow>
   exn + ('v, 'p, 'd, 'c, 'x, 'r) heap" where
  "append_pipeline self pipeline proba repeat h =
     (case h_pipes h self of
        None \<Rightarrow> Inl (AttributeError ''pipeline'')
      | Some me \<Rightarrow>
          (case h_lists h (p_action_list me) of
             None \<Rightarrow> Inl (AttributeError ''_action_list'')
           | Some actions \<Rightarrow>
               (case alloc_dict [''name'' \<mapsto> PStr PIPELINE_ID, ''pipeline'' \<mapsto> PObj pipeline,
                                 ''proba'' \<mapsto> py_float proba, ''repeat'' \<mapsto> py_int repeat] h of
                  (d, h) \<Rightarrow>
                    Inr (h\<lparr>h_lists := (h_lists h)(p_action_list me \<mapsto> actions @ [d])\<rparr>))))"

definition from_pipeline ::
  "nat \<Rightarrow> 'p::times option \<Rightarrow> int option \<Rightarrow> ('v, 'p, 'd, 'c, 'x, 'r) heap \<Rightarrow>
   exn + nat \<times> ('v, 'p, 'd, 'c, 'x, 'r) heap" where
  "from_pipeline pipeline proba repeat h =
     (case proba of
        None \<Rightarrow>
          (case repeat of
             None \<Rightarrow> init_copy pipeline None None h
           | Some r \<Rightarrow>
               (case single_untagged pipeline ''proba'' h of
                  Inl e \<Rightarrow> Inl e
                | Inr True \<Rightarrow> init_copy pipeline None (Some r) h
                | Inr False \<Rightarrow>
                    (case init_new None None h of
                       (new_p, h) \<Rightarrow>
                         (case append_pipeline new_p pipeline None (Some r) h of
                            Inl e \<Rightarrow> Inl e
                          | Inr h \<Rightarrow> Inr (new_p, h)))))
      | Some pr \<Rightarrow>
          (case single_untagged pipeline ''repeat'' h of
             Inl e \<Rightarrow> Inl e
           | Inr True \<Rightarrow> init_copy pipeline (Some pr) None h
           | Inr False \<Rightarrow>
               (case init_new None None h of
                  (new_p, h) \<Rightarrow>
                    (case append_pipeline new_p pipeline (Some pr) None h of
                       Inl e \<Rightarrow> Inl e
                     | Inr h \<Rightarrow> Inr (new_p, h)))))"

text \<open>
  \<^verbatim>\<open>a or b\<close> on data sources. The class of the data sources is outside the repository;
  whether a source counts as true is the parameter \<open>truthy\<close>.
\<close>

definition py_or :: "('d \<Rightarrow> bool) \<Rightarrow> 'd option \<Rightarrow> 'd option \<Rightarrow> 'd option" where
  "py_or truthy a b = (case a of None \<Rightarrow> b | Some x \<Rightarrow> if truthy x then a else b)"

text \<open>
  \<^verbatim>\<open>Pipeline.concat\<close>. The sources are compared as \<^verbatim>\<open>!=\<close> compares objects without an
  \<^verbatim>\<open>__ne__\<close> of their own.
\<close>

definition concat_pipeline ::
  "('d \<Rightarrow> bool) \<Rightarrow> nat \<Rightarrow> nat \<Rightarrow> ('v, 'p::times, 'd, 'c, 'x, 'r) heap \<Rightarrow>
   exn + nat \<times> ('v, 'p, 'd, 'c, 'x, 'r) heap" where
  "concat_pipeline truthy pipe1 pipe2 h =
     (case (h_pipes h pipe1, h_pipes h pipe2) of
        (Some a, Some b) \<Rightarrow>
          (if p_dataset a \<noteq> p_dataset b \<and> p_dataset a \<noteq> None \<and> p_dataset b \<noteq> None then
             Inl (ValueError ''Cannot add pipelines with different datasets'')
           else
             (case from_pipeline pipe1 None None h of
                Inl e \<Rightarrow> Inl e
              | Inr (new_p1, h) \<Rightarrow>
                  (case from_pipeline pipe2 None None h of
                     Inl e \<Rightarrow> Inl e
                   | Inr (new_p2, h) \<Rightarrow>
                       (case (h_pipes h new_p1, h_pipes h new_p2) of
                          (Some n1, Some n2) \<Rightarrow>
                            (case (h_lists h (p_action_list n1), h_lists h (p_action_list n2)) of
                               (Some l1, Some l2) \<Rightarrow>
                                 (case (h_pipes h pipe1, h_pipes h pipe2) of
                                    (Some a, Some b) \<Rightarrow>
                                      Inr (new_p1,
                                           h\<lparr>h_lists := (h_lists h)(p_action_list n1 \<mapsto> l1 @ l2),
                                             h_pipes := (h_pipes h)
                                               (new_p1 \<mapsto>
                                                  n1\<lparr>p_variables := p_variables a ++ p_variables b,
                                                     p_dataset :=
                                                       py_or truthy (p_dataset a) (p_dataset b)\<rparr>)\<rparr>)
                                  | _ \<Rightarrow> Inl (AttributeError ''pipeline''))
                             | _ \<Rightarrow> Inl (AttributeError ''_action_list''))
                        | _ \<Rightarrow> Inl (AttributeError ''pipeline'')))))
      | _ \<Rightarrow> Inl (AttributeError ''pipeline''))"

text \<open>
  Reading the attribute \<^verbatim>\<open>dataset\<close> of a pipeline, and the expression
  \<^verbatim>\<open>Pipeline.concat(pipe1, pipe2).dataset\<close>.
\<close>

definition get_dataset ::
  "nat \<Rightarrow> ('v, 'p, 'd, 'c, 'x, 'r) heap \<Rightarrow> exn + 'd option" where
  "get_dataset p h =
     (case h_pipes h p of
        None \<Rightarrow> Inl (AttributeError ''dataset'')
      | Some a \<Rightarrow> Inr (p_dataset a))"

definition concat_dataset ::
  "('d \<Rightarrow> bool) \<Rightarrow> nat \<Rightarrow> nat \<Rightarrow> ('v, 'p::times, 'd, 'c, 'x, 'r) heap \<Rightarrow> exn + 'd option" where
  "concat_dataset truthy pipe1 pipe2 h =
     (case concat_pipeline truthy pipe1 pipe2 h of
        Inl e \<Rightarrow> Inl e
      | Inr (new_p, h) \<Rightarrow> get_dataset new_p h)"

text \<open>
  An action is appended by \<^verbatim>\<open>pipeline.name(*args, **kwargs)\<close>: \<^verbatim>\<open>__getattr__\<close> puts a record
  with the name at the end of the list of the pipeline and returns \<^verbatim>\<open>append_action\<close>,
  which is then called. \<^verbatim>\<open>_is_batch_method\<close> searches the classes of units, which are
  outside the repository; it is the parameter \<open>is_batch_method\<close>.
\<close>

definition getattr_action ::
  "(string \<Rightarrow> bool) \<Rightarrow> nat \<Rightarrow> string \<Rightarrow> ('v, 'p, 'd, 'c, 'x, 'r) heap \<Rightarrow>
   exn + ('v, 'p, 'd, 'c, 'x, 'r) heap" where
  "getattr_action is_batch_method self name h =
     (if is_batch_method name then
        (case h_pipes h self of
           None \<Rightarrow> Inl (AttributeError ''pipeline'')
         | Some me \<Rightarrow>
             (case h_lists h (p_action_list me) of
                None \<Rightarrow> Inl (AttributeError ''_action_list'')
              | Some actions \<Rightarrow>
                  (case alloc_dict [''name'' \<mapsto> PStr name] h of
                     (d, h) \<Rightarrow>
                       Inr (h\<lparr>h_lists := (h_lists h)(p_action_list me \<mapsto> actions @ [d])\<rparr>))))
      else Inl (AttributeError name))"

definition append_action ::
  "nat \<Rightarrow> 'v list \<Rightarrow> (string \<times> 'v) list \<Rightarrow> ('v, 'p::times, 'd, 'c, 'x, 'r) heap \<Rightarrow>
   exn + nat \<times> ('v, 'p, 'd, 'c, 'x, 'r) heap" where
  "append_action self args kwargs h =
     (case h_pipes h self of
        None \<Rightarrow> Inl (AttributeError ''pipeline'')
      | Some me \<Rightarrow>
          (case h_lists h (p_action_list me) of
             None \<Rightarrow> Inl (AttributeError ''_action_list'')
           | Some actions \<Rightarrow>
               (if actions = [] then Inl (IndexError ''_action_list'')
                else
                  (case h_dicts h (last actions) of
                     None \<Rightarrow> Inl (AttributeError ''action'')
                   | Some action \<Rightarrow>
                       (let h = h\<lparr>h_dicts := (h_dicts h)
                                  (last actions \<mapsto>
                                     action ++ [''args'' \<mapsto> PTuple args, ''kwargs'' \<mapsto> PDict kwargs,
                                                ''proba'' \<mapsto> PNone, ''repeat'' \<mapsto> PNone])\<rparr>
                        in case from_pipeline self None None h of
                             Inl e \<Rightarrow> Inl e
                           | Inr (new_p, h) \<Rightarrow>
                               (case alloc_list (butlast actions) h of
                                  (l, h) \<Rightarrow>
                                    Inr (new_p,
                                         h\<lparr>h_pipes := (h_pipes h)
                                              (self \<mapsto> me\<lparr>p_action_list := l\<rparr>)\<rparr>)))))))"

definition call_action ::
  "(string \<Rightarrow> bool) \<Rightarrow> nat \<Rightarrow> string \<Rightarrow> 'v list \<Rightarrow> (string \<times> 'v) list \<Rightarrow>
   ('v, 'p::times, 'd, 'c, 'x, 'r) heap \<Rightarrow> exn + nat \<times> ('v, 'p, 'd, 'c, 'x, 'r) heap" where
  "call_action is_batch_method self name args kwargs h =
     (case getattr_action is_batch_method self name h of
        Inl e \<Rightarrow> Inl e
      | Inr h \<Rightarrow> append_action self args kwargs h)"

text \<open>A heap is well formed when no object lies at or beyond the next free reference.\<close>

definition wf_heap :: "('v, 'p, 'd, 'c, 'x, 'r) heap \<Rightarrow> bool" where
  "wf_heap h \<longleftrightarrow>
     (\<forall>r. h_next h \<le> r \<longrightarrow> h_lists h r = None \<and> h_dicts h r = None \<and> h_pipes h r = None)"

definition ex_heap :: "(nat, nat, nat, nat, nat, nat) heap" where
  "ex_heap =
     \<lparr>h_lists = [0 \<mapsto> [2], 1 \<mapsto> [3, 4]],
      h_dicts = [2 \<mapsto> [''name'' \<mapsto> PStr ''load''],
                 3 \<mapsto> [''name'' \<mapsto> PStr ''crop''],
                 4 \<mapsto> [''name'' \<mapsto> PStr ''flip'']],
      h_pipes = [5 \<mapsto> \<lparr>p_dataset = Some 9, p_config = None, p_action_list = 0,
                          p_variables = Map.empty, p_lazy_run = None\<rparr>,
                 6 \<mapsto> \<lparr>p_dataset = None, p_config = None, p_action_list = 1,
                          p_variables = Map.empty, p_lazy_run = None\<rparr>],
      h_next = 7\<rparr>"

text \<open>
  In the examples a data source is the number of its items; as for every object with a
  \<^verbatim>\<open>__len__\<close>, a source of no items counts as false. In the second heap the first
  pipeline is bound to such a source and the second pipeline to none.
\<close>

definition ex_truthy :: "nat \<Rightarrow> bool" where
  "ex_truthy d \<longleftrightarrow> 0 < d"

definition ex_heap_empty_source :: "(nat, nat, nat, nat, nat, nat) heap" where
  "ex_heap_empty_source =
     ex_heap\<lparr>h_pipes := (h_pipes ex_heap)
       (5 \<mapsto> \<lparr>p_dataset = Some 0, p_config = None, p_action_list = 0,
                p_variables = Map.empty, p_lazy_run = None\<rparr>)\<rparr>"

section \<open>Theorems\<close>

subsection \<open>Look-ahead depth\<close>

text \<open>
  C10. A call of batch generation that asks for a look-ahead depth above 62, with one of
  the two pool targets (threads or processes; any other target raises before a queue
  exists), gets depth 62 whatever it asked for: the admission queue has capacity 63, the
  queue of result handles capacity 62 and the execution pool 63 workers.
\<close>

theorem gen_batch_prefetch_capped:
  assumes "62 < prefetch" and "target \<in> {''threads'', ''t'', ''mpc'', ''m''}"
  shows "\<exists>r. gen_batch_setup target prefetch = Inr (Some r)
           \<and> rs_prefetch_count_maxsize r = 63
           \<and> rs_prefetch_queue_maxsize r = 62
           \<and> max_workers (rs_executor r) = 63
           \<and> gen_batch_setup target prefetch = gen_batch_setup target 62"
  using assms by (auto simp: gen_batch_setup_def Let_def)

theorem gen_batch_prefetch_capped_witness:
  "(62::int) < 1000 \<and> ''mpc'' \<in> {''threads'', ''t'', ''mpc'', ''m''}
   \<and> (\<exists>r. gen_batch_setup ''mpc'' 1000 = Inr (Some r)
           \<and> rs_prefetch_count_maxsize r = 63
           \<and> rs_prefetch_queue_maxsize r = 62
           \<and> max_workers (rs_executor r) = 63
           \<and> gen_batch_setup ''mpc'' 1000 = gen_batch_setup ''mpc'' 62)"
  using gen_batch_prefetch_capped [of 1000 "''mpc''"] by simp

subsection \<open>The consumer stage\<close>

text \<open>
  C1 (the code at a failing input). Four handles are read: the unit 1, a unit whose
  execution raised an exception other than the skip signal, the unit 3, and the end
  marker. The exception is printed, and then the unit 1 of the round before is delivered
  a second time in the place of the failed unit.
\<close>

theorem consumer_delivers_stale_batch:
  "run_batches_from_queue
     [Some (Returns (1::nat)), Some (Raises (Raised 7)), Some (Returns 3), None] consumer_start =
     (Ended, \<lparr>cs_skip_batch = False, cs_batch = Some 3,
              cs_batch_queue = [Some 1, Some 1, Some 3, None],
              cs_printed = [Raised 7], cs_tasks_done = 4\<rparr>)"
  by (simp add: consumer_start_def consumer_finally_def)

text \<open>
  When the failed unit is the first one, the consumer itself dies of the unbound local
  and never forwards the end marker.
\<close>

lemma consumer_dies_on_first_failure:
  "run_batches_from_queue [Some (Raises (Raised 7)), Some (Returns (1::nat)), None]
     consumer_start =
     (Died (UnboundLocalError ''batch''),
      \<lparr>cs_skip_batch = False, cs_batch = None, cs_batch_queue = [],
       cs_printed = [Raised 7], cs_tasks_done = 0\<rparr>)"
  by (simp add: consumer_start_def consumer_finally_def)

text \<open>
  A skipped unit is not delivered; the flag it sets is cleared only on a delivery, so no
  later unit is delivered either.
\<close>

lemma consumer_skip_is_sticky:
  "run_batches_from_queue [Some (Raises SkipBatchException), Some (Returns (1::nat)), None]
     consumer_start =
     (Ended, \<lparr>cs_skip_batch = True, cs_batch = Some 1, cs_batch_queue = [None],
              cs_printed = [], cs_tasks_done = 3\<rparr>)"
  by (simp add: consumer_start_def consumer_finally_def)

subsection \<open>Executing one action\<close>

text \<open>
  C2 (the code at a failing input). An action with repeat count 0 and no probability is
  run on a unit whose data is 0. The action method is invoked once, not zero times:
  \<^verbatim>\<open>action['repeat'] or 1\<close> takes 0 for an absent count.
\<close>

theorem exec_one_action_repeat_zero_runs_once:
  "exec_one_action list_binomial counter_attrs 9 \<lparr>b_pipeline = None, b_data = 0\<rparr>
     (inc_action PNone (PInt 0) :: (nat, nat) pydict) [] []
     \<lparr>rs_rng = [], rs_world = (), rs_calls = []\<rparr> =
   (Inr \<lparr>b_pipeline = Some 9, b_data = 1\<rparr>,
    \<lparr>rs_rng = [], rs_world = (), rs_calls = [''inc'']\<rparr>)"
  by (simp add: exec_one_action_def needs_exec_def repeat_count_def getitem_def inc_action_def
      get_action_method_def counter_attrs_def)

text \<open>The parts of the same claim that the code keeps: the probability test and the positive counts.\<close>

lemma needs_exec_no_proba:
  "action ''proba'' = Some PNone \<Longrightarrow> needs_exec np_binomial action g = (Inr True, g)"
  by (simp add: needs_exec_def getitem_def)

lemma needs_exec_one_trial:
  "action ''proba'' = Some (PFloat p) \<Longrightarrow> np_binomial 1 p g = (Inr k, g') \<Longrightarrow>
   needs_exec np_binomial action g = (Inr (k = 1), g')"
  by (simp add: needs_exec_def getitem_def)

lemma exec_rounds_calls:
  assumes "action ''name'' = Some (PStr name)"
    and "\<forall>b. attrs b name = ActionMethod m"
    and "\<forall>b w. \<exists>b'. fst (m b args kwargs w) = Inr b'"
  shows "\<exists>b'. fst (exec_rounds n attrs self action args kwargs batch st) = Inr b'
           \<and> rs_calls (snd (exec_rounds n attrs self action args kwargs batch st)) =
               rs_calls st @ replicate n name
           \<and> rs_rng (snd (exec_rounds n attrs self action args kwargs batch st)) = rs_rng st"
proof (induction n arbitrary: batch st)
  case 0
  then show ?case by simp
next
  case (Suc n)
  let ?b = "batch\<lparr>b_pipeline := Some self\<rparr>"
  obtain b' where b': "fst (m ?b args kwargs (rs_world st)) = Inr b'"
    using assms(3) by blast
  obtain w where w: "m ?b args kwargs (rs_world st) = (Inr b', w)"
    using b' by (cases "m ?b args kwargs (rs_world st)") auto
  show ?case
    using Suc.IH [of "b'\<lparr>b_pipeline := Some self\<rparr>"
        "st\<lparr>rs_world := w, rs_calls := rs_calls st @ [name]\<rparr>"]
    by (simp add: assms(1,2) getitem_def get_action_method_def w replicate_app_Cons_same)
qed

lemma exec_one_action_repeat:
  assumes "action ''name'' = Some (PStr name)"
    and "action ''proba'' = Some PNone"
    and "action ''repeat'' = Some (PInt r)" and "0 < r"
    and "\<forall>b. attrs b name = ActionMethod m"
    and "\<forall>b w. \<exists>b'. fst (m b args kwargs w) = Inr b'"
  shows "rs_calls (snd (exec_one_action np_binomial attrs self batch action args kwargs st)) =
           rs_calls st @ replicate (nat r) name"
  using assms
    exec_rounds_calls [where action = action and name = name and attrs = attrs and m = m
      and args = args and kwargs = kwargs and n = "nat r" and self = self and batch = batch
      and st = "st\<lparr>rs_rng := rs_rng st\<rparr>"]
  by (simp add: exec_one_action_def needs_exec_def repeat_count_def getitem_def)

lemma exec_one_action_repeat_five:
  "exec_one_action list_binomial counter_attrs 9 \<lparr>b_pipeline = None, b_data = 0\<rparr>
     (inc_action PNone (PInt 5) :: (nat, nat) pydict) [] []
     \<lparr>rs_rng = [], rs_world = (), rs_calls = []\<rparr> =
   (Inr \<lparr>b_pipeline = Some 9, b_data = 5\<rparr>,
    \<lparr>rs_rng = [], rs_world = (), rs_calls = [''inc'', ''inc'', ''inc'', ''inc'', ''inc'']\<rparr>)"
  by (simp add: exec_one_action_def needs_exec_def repeat_count_def getitem_def inc_action_def
      get_action_method_def counter_attrs_def eval_nat_numeral)

subsection \<open>The parallel dispatcher\<close>











subsection \<open>Configuration of a model\<close>

text \<open>
  The match of \<^verbatim>\<open>equal_names\<close> is the suffix relation on strings, but for the empty name,
  which matches the empty full name only. A full name is never empty.
\<close>

lemma equal_names_suffix:
  "equal_names k ref \<longleftrightarrow> (if key_name k = [] then ref = [] else suffix (key_name k) ref)"
proof (cases "key_name k = []")
  case True
  then show ?thesis by (auto simp: equal_names_def slice_last_def)
next
  case False
  let ?n = "key_name k"
  have "drop (length ref - length ?n) ref = ?n \<longleftrightarrow> suffix ?n ref"
  proof
    assume "drop (length ref - length ?n) ref = ?n"
    then have "ref = take (length ref - length ?n) ref @ ?n"
      by (metis append_take_drop_id)
    then show "suffix ?n ref" by (metis suffixI)
  next
    assume "suffix ?n ref"
    then obtain zs where "ref = zs @ ?n" by (auto simp: suffix_def)
    then show "drop (length ref - length ?n) ref = ?n" by simp
  qed
  then show ?thesis using False by (simp add: equal_names_def slice_last_def)
qed

lemma equal_names_fullname:
  "equal_names k (get_method_fullname module qualname) \<longleftrightarrow>
     key_name k \<noteq> [] \<and> suffix (key_name k) (get_method_fullname module qualname)"
  by (simp add: equal_names_suffix get_method_fullname_def)

lemma or_dict_merge: "or_dict c ++ or_dict config = merge_call_wins c config"
  by (rule ext) (simp add: merge_call_wins_def or_dict_def map_add_def split: option.splits)

lemma store_model_built:
  "store_model wr self model_spec rg = Inr rg' \<Longrightarrow> rg_built rg' = rg_built rg"
  by (auto simp: store_model_def split: sum.splits)

lemma add_model_get_model:
  assumes "add_model ms model_spec models = Inr models'" and "ms_mode ms \<noteq> ''global''"
  shows "get_model ms (ms_pipeline ms) models' = Inr model_spec"
  using assms
  by (cases "ms_pipeline ms")
     (auto simp: add_model_def get_model_def Let_def split: option.splits if_splits)

lemma add_model_succeeds:
  "model_exists ms models = Inr b \<Longrightarrow> \<exists>models'. add_model ms model_spec models = Inr models'"
  by (auto simp: add_model_def model_exists_def Let_def split: option.splits)

lemma model_wrapper_raises:
  assumes "wr_mode wr \<in> {''static'', ''dynamic''}"
    and "model_exists (get_method_spec wr (b_pipeline self)) (rg_models rg) = Inr False"
    and "build_model wr self config rg = (Inl e, rg')"
  shows "model_wrapper wr self config rg = (Inl e, rg')"
  using assms
  by (auto simp: model_wrapper_def Let_def)

lemma model_wrapper_builds:
  assumes mode: "wr_mode wr \<in> {''static'', ''dynamic''}"
    and missing: "model_exists (get_method_spec wr (b_pipeline self)) (rg_models rg) = Inr False"
    and build: "build_model wr self config rg = (Inr model_spec, rg')"
    and models: "rg_models rg' = rg_models rg"
  shows "fst (model_wrapper wr self config rg) = Inr model_spec
       \<and> rg_world (snd (model_wrapper wr self config rg)) = rg_world rg'
       \<and> get_model (get_method_spec wr (b_pipeline self)) (b_pipeline self)
            (rg_models (snd (model_wrapper wr self config rg))) = Inr model_spec"
proof -
  let ?ms = "get_method_spec wr (b_pipeline self)"
  obtain models' where add: "add_model ?ms model_spec (rg_models rg') = Inr models'"
    using add_model_succeeds [of ?ms "rg_models rg'" False model_spec] missing models by auto
  have ng: "ms_mode ?ms \<noteq> ''global''" and pl: "ms_pipeline ?ms = b_pipeline self"
    using mode by (auto simp: get_method_spec_def)
  have get: "get_model ?ms (b_pipeline self) models' = Inr model_spec"
    using add_model_get_model [OF add ng] pl by simp
  have st: "store_model wr self model_spec rg' = Inr (rg'\<lparr>rg_models := models'\<rparr>)"
    using add by (simp add: store_model_def)
  have "model_wrapper wr self config rg = (Inr model_spec, rg'\<lparr>rg_models := models'\<rparr>)"
    using mode missing build st get by (auto simp: model_wrapper_def Let_def)
  then show ?thesis using get by simp
qed

text \<open>
  C6 (as amended). A model of static or dynamic mode is resolved for a unit whose
  pipeline has a configuration, the model not yet being in the directory. The keys that
  match are the non-empty keys that are a suffix of the full name of the model method
  (the empty key matches no model). If more than one key matches, the resolution raises
  the error of the ambiguous configuration and the registry is as before. If exactly one
  key matches, the model method is called, in the world as it is, with the configuration
  stored under that key merged with the configuration of the call, the values of the
  call winning: what this call raises the resolution raises, storing no model, and what
  it returns the resolution returns and stores.
\<close>

theorem model_wrapper_config:
  assumes "wr_mode wr \<in> {''static'', ''dynamic''}"
    and "b_pipeline self = Some p"
    and "wr_config_of wr p = Some full_config"
    and "model_exists (get_method_spec wr (Some p)) (rg_models rg) = Inr False"
  shows "(1 < length [k \<leftarrow> map fst full_config.
                      key_name k \<noteq> [] \<and>
                      suffix (key_name k) (get_method_fullname (wr_module wr) (wr_qualname wr))] \<longrightarrow>
            model_wrapper wr self config rg =
              (Inl (ValueError ''Ambigous config contains several keys with similar names''), rg))
       \<and> (\<forall>k. [k \<leftarrow> map fst full_config.
                   key_name k \<noteq> [] \<and>
                   suffix (key_name k) (get_method_fullname (wr_module wr) (wr_qualname wr))] = [k] \<longrightarrow>
            (\<exists>c. map_of full_config k = Some c
               \<and> (case wr_method wr
                          (if wr_mode wr = ''static'' then PipelineArg (Some p) else SelfArg self)
                          (Some (merge_call_wins c config)) (rg_world rg) of
                    (Inl e, w) \<Rightarrow>
                      fst (model_wrapper wr self config rg) = Inl e
                      \<and> rg_world (snd (model_wrapper wr self config rg)) = w
                      \<and> rg_models (snd (model_wrapper wr self config rg)) = rg_models rg
                  | (Inr model_spec, w) \<Rightarrow>
                      fst (model_wrapper wr self config rg) = Inr model_spec
                      \<and> rg_world (snd (model_wrapper wr self config rg)) = w
                      \<and> get_model (get_method_spec wr (Some p)) (Some p)
                           (rg_models (snd (model_wrapper wr self config rg))) = Inr model_spec)))"
proof (intro conjI impI allI)
  let ?full = "get_method_fullname (wr_module wr) (wr_qualname wr)"
  assume "1 < length [k \<leftarrow> map fst full_config. key_name k \<noteq> [] \<and> suffix (key_name k) ?full]"
  then have "1 < length [k \<leftarrow> map fst full_config. equal_names k ?full]"
    by (simp add: equal_names_fullname)
  then have "build_model wr self config rg =
      (Inl (ValueError ''Ambigous config contains several keys with similar names''), rg)"
    using assms(2,3) by (simp add: build_model_def resolve_config_def Let_def)
  then show "model_wrapper wr self config rg =
      (Inl (ValueError ''Ambigous config contains several keys with similar names''), rg)"
    using model_wrapper_raises [of wr self rg config _ rg] assms(1,2,4) by simp
next
  fix k
  let ?full = "get_method_fullname (wr_module wr) (wr_qualname wr)"
  let ?arg = "if wr_mode wr = ''static'' then PipelineArg (Some p) else SelfArg self"
  assume "[k \<leftarrow> map fst full_config. key_name k \<noteq> [] \<and> suffix (key_name k) ?full] = [k]"
  then have one: "[k \<leftarrow> map fst full_config. equal_names k ?full] = [k]"
    by (simp add: equal_names_fullname)
  then have "k \<in> set [k \<leftarrow> map fst full_config. equal_names k ?full]"
    by simp
  then have "k \<in> set (map fst full_config)"
    by (simp only: set_filter) blast
  then obtain c where c: "map_of full_config k = Some c"
    by (metis map_of_eq_None_iff not_Some_eq set_map)
  have rc: "resolve_config (Some full_config) ?full config = Inr (Some (merge_call_wins c config))"
    using one c by (simp add: resolve_config_def Let_def or_dict_merge)
  obtain r w where call: "wr_method wr ?arg (Some (merge_call_wins c config)) (rg_world rg) = (r, w)"
    by (cases "wr_method wr ?arg (Some (merge_call_wins c config)) (rg_world rg)")
  let ?rg' = "rg\<lparr>rg_world := w,
                 rg_built := rg_built rg @ [(?arg, Some (merge_call_wins c config), r)]\<rparr>"
  have bm: "build_model wr self config rg = (r, ?rg')"
    using assms(2,3) rc call by (simp add: build_model_def Let_def)
  have outcome: "case (r, w) of
      (Inl e, w) \<Rightarrow>
        fst (model_wrapper wr self config rg) = Inl e
        \<and> rg_world (snd (model_wrapper wr self config rg)) = w
        \<and> rg_models (snd (model_wrapper wr self config rg)) = rg_models rg
    | (Inr model_spec, w) \<Rightarrow>
        fst (model_wrapper wr self config rg) = Inr model_spec
        \<and> rg_world (snd (model_wrapper wr self config rg)) = w
        \<and> get_model (get_method_spec wr (Some p)) (Some p)
             (rg_models (snd (model_wrapper wr self config rg))) = Inr model_spec"
  proof (cases r)
    case (Inl e)
    then show ?thesis
      using model_wrapper_raises [of wr self rg config e ?rg'] bm assms(1,2,4) by simp
  next
    case (Inr model_spec)
    then show ?thesis
      using model_wrapper_builds [of wr self rg config model_spec ?rg'] bm assms(1,2,4) by simp
  qed
  show "\<exists>c. map_of full_config k = Some c
      \<and> (case wr_method wr ?arg (Some (merge_call_wins c config)) (rg_world rg) of
            (Inl e, w) \<Rightarrow>
              fst (model_wrapper wr self config rg) = Inl e
              \<and> rg_world (snd (model_wrapper wr self config rg)) = w
              \<and> rg_models (snd (model_wrapper wr self config rg)) = rg_models rg
          | (Inr model_spec, w) \<Rightarrow>
              fst (model_wrapper wr self config rg) = Inr model_spec
              \<and> rg_world (snd (model_wrapper wr self config rg)) = w
              \<and> get_model (get_method_spec wr (Some p)) (Some p)
                   (rg_models (snd (model_wrapper wr self config rg))) = Inr model_spec)"
    using c outcome call by auto
qed

lemma ex_missing:
  "model_exists (get_method_spec (ex_wrapper fc) (Some 4)) (rg_models ex_registry) = Inr False"
  by (simp add: model_exists_def get_method_spec_def ex_wrapper_def ex_registry_def
      models_start_def MODEL_MODES_def)

theorem model_wrapper_config_witness:
  "1 < length [k \<leftarrow> map fst fc_two. key_name k \<noteq> [] \<and> suffix (key_name k) ''nets.Batch.model'']
   \<and> model_wrapper (ex_wrapper fc_two) \<lparr>b_pipeline = Some 4, b_data = 0\<rparr> None ex_registry =
       (Inl (ValueError ''Ambigous config contains several keys with similar names''), ex_registry)
   \<and> [k \<leftarrow> map fst fc_one. key_name k \<noteq> [] \<and> suffix (key_name k) ''nets.Batch.model''] =
       [NameStr ''model'']
   \<and> merge_call_wins (Some [''lr'' \<mapsto> 3, ''depth'' \<mapsto> 2]) (Some [''lr'' \<mapsto> 5::nat]) ''lr'' = Some 5
   \<and> merge_call_wins (Some [''lr'' \<mapsto> 3, ''depth'' \<mapsto> 2]) (Some [''lr'' \<mapsto> 5::nat]) ''depth'' = Some 2
   \<and> fst (model_wrapper (ex_wrapper fc_one) \<lparr>b_pipeline = Some 4, b_data = 0\<rparr>
             (Some [''lr'' \<mapsto> 5]) ex_registry) = Inr 5
   \<and> get_model (get_method_spec (ex_wrapper fc_one) (Some 4)) (Some 4)
        (rg_models (snd (model_wrapper (ex_wrapper fc_one) \<lparr>b_pipeline = Some 4, b_data = 0\<rparr>
                           (Some [''lr'' \<mapsto> 5]) ex_registry))) = Inr 5"
proof -
  have two: "1 < length [k \<leftarrow> map fst fc_two. key_name k \<noteq> [] \<and> suffix (key_name k) ''nets.Batch.model'']"
    by code_simp
  have one: "[k \<leftarrow> map fst fc_one. key_name k \<noteq> [] \<and> suffix (key_name k) ''nets.Batch.model''] =
      [NameStr ''model'']"
    by code_simp
  have full: "get_method_fullname (wr_module (ex_wrapper fc)) (wr_qualname (ex_wrapper fc)) =
      ''nets.Batch.model''" for fc
    by (simp add: get_method_fullname_def ex_wrapper_def)
  have m: "map_of fc_one (NameStr ''model'') = Some (Some [''lr'' \<mapsto> 3, ''depth'' \<mapsto> 2])"
    by (simp add: fc_one_def)
  have mode: "wr_mode (ex_wrapper fc) \<in> {''static'', ''dynamic''}" for fc
    by (simp add: ex_wrapper_def)
  have cfg: "wr_config_of (ex_wrapper fc) 4 = Some fc" for fc
    by (simp add: ex_wrapper_def)
  have pl: "b_pipeline \<lparr>b_pipeline = Some 4, b_data = 0::nat\<rparr> = Some 4"
    by simp
  have a: "model_wrapper (ex_wrapper fc_two) \<lparr>b_pipeline = Some 4, b_data = 0\<rparr> None ex_registry =
       (Inl (ValueError ''Ambigous config contains several keys with similar names''), ex_registry)"
    using model_wrapper_config [OF mode pl cfg ex_missing, of fc_two None] two
    by (simp add: full)
  have call: "wr_method (ex_wrapper fc_one)
      (if wr_mode (ex_wrapper fc_one) = ''static'' then PipelineArg (Some 4)
       else SelfArg \<lparr>b_pipeline = Some 4, b_data = 0\<rparr>)
      (Some (merge_call_wins (Some [''lr'' \<mapsto> 3, ''depth'' \<mapsto> 2]) (Some [''lr'' \<mapsto> 5])))
      (rg_world ex_registry) = (Inr 5, 1)"
    by (simp add: ex_wrapper_def ex_builder_def ex_registry_def merge_call_wins_def)
  have b: "fst (model_wrapper (ex_wrapper fc_one) \<lparr>b_pipeline = Some 4, b_data = 0\<rparr>
             (Some [''lr'' \<mapsto> 5]) ex_registry) = Inr 5
   \<and> get_model (get_method_spec (ex_wrapper fc_one) (Some 4)) (Some 4)
        (rg_models (snd (model_wrapper (ex_wrapper fc_one) \<lparr>b_pipeline = Some 4, b_data = 0\<rparr>
                           (Some [''lr'' \<mapsto> 5]) ex_registry))) = Inr 5"
    using model_wrapper_config [OF mode pl cfg ex_missing, of fc_one "Some [''lr'' \<mapsto> 5]"] one m
    by (simp add: full call)
  show ?thesis
    using a b two one by (simp add: merge_call_wins_def)
qed

text \<open>
  The claim as it was worded, refuted: of the two keys of this configuration, the empty
  one and \<^verbatim>\<open>model\<close>, both are a suffix of the full name, and the resolution raises nothing;
  it builds the model with the configuration of the second key.
\<close>

theorem model_wrapper_empty_key_counterexample:
  "map fst fc_empty_key = [NameStr [], NameStr ''model'']
   \<and> suffix (key_name (NameStr [])) ''nets.Batch.model''
   \<and> suffix (key_name (NameStr ''model'')) ''nets.Batch.model''
   \<and> get_method_fullname (wr_module (ex_wrapper fc_empty_key))
        (wr_qualname (ex_wrapper fc_empty_key)) = ''nets.Batch.model''
   \<and> fst (model_wrapper (ex_wrapper fc_empty_key) \<lparr>b_pipeline = Some 4, b_data = 0\<rparr> None
             ex_registry) = Inr 2"
  by code_simp

subsection \<open>At most one build of a model\<close>

lemma add_model_exists:
  "add_model ms model_spec models = Inr models' \<Longrightarrow> model_exists ms models' = Inr True"
  by (auto simp: add_model_def model_exists_def Let_def split: option.splits if_splits)

lemma build_model_models:
  "build_model wr self config rg = (r, rg') \<Longrightarrow> rg_models rg' = rg_models rg"
  by (auto simp: build_model_def Let_def split: option.splits sum.splits prod.splits)

lemma build_model_count:
  "build_model wr self config rg = (r, rg') \<Longrightarrow>
   built_ok rg' = built_ok rg + (if isl r \<or> rg_built rg' = rg_built rg then 0 else 1)"
  by (auto simp: build_model_def built_ok_def Let_def split: option.splits sum.splits prod.splits)

lemma store_model_succeeds:
  "model_exists (get_method_spec wr (b_pipeline self)) (rg_models rg) = Inr b \<Longrightarrow>
   \<exists>rg'. store_model wr self model_spec rg = Inr rg'"
  using add_model_succeeds [of "get_method_spec wr (b_pipeline self)" "rg_models rg" b model_spec]
  by (auto simp: store_model_def)

lemma store_model_exists:
  "store_model wr self model_spec rg = Inr rg' \<Longrightarrow>
   model_exists (get_method_spec wr (b_pipeline self)) (rg_models rg') = Inr True"
  by (auto simp: store_model_def split: sum.splits dest: add_model_exists)

lemma pc_step_lock:
  assumes "pc_step wr self config i (pc, lock, rg) = (pc', lock', rg')"
    and "holds_lock pc \<longrightarrow> lock = Some i"
  shows "(holds_lock pc' \<longrightarrow> lock' = Some i)
       \<and> (\<not> holds_lock pc' \<longrightarrow> holds_lock pc \<longrightarrow> lock' = None)
       \<and> (\<not> holds_lock pc' \<longrightarrow> \<not> holds_lock pc \<longrightarrow> lock' = lock)
       \<and> (holds_lock pc' \<longrightarrow> \<not> holds_lock pc \<longrightarrow> lock = None)"
  using assms
  by (cases pc)
     (auto simp: pc_step_def Let_def split: if_splits sum.splits bool.splits option.splits prod.splits)

lemma pc_step_missing:
  assumes "pc_step wr self config i (pc, lock, rg) = (pc', lock', rg')"
    and "found_missing pc \<longrightarrow>
           model_exists (get_method_spec wr (b_pipeline self)) (rg_models rg) = Inr False"
    and "found_missing pc'"
  shows "model_exists (get_method_spec wr (b_pipeline self)) (rg_models rg') = Inr False"
  using assms
  by (cases pc)
     (auto simp: pc_step_def Let_def
           split: if_splits sum.splits bool.splits option.splits prod.splits
           dest: build_model_models)

lemma pc_step_models:
  assumes "pc_step wr self config i (pc, lock, rg) = (pc', lock', rg')"
    and "\<not> is_storing pc"
  shows "rg_models rg' = rg_models rg"
  using assms
  by (cases pc)
     (auto simp: pc_step_def Let_def
           split: if_splits sum.splits bool.splits option.splits prod.splits
           dest: build_model_models)

lemma pc_step_built:
  assumes "pc_step wr self config i (pc, lock, rg) = (pc', lock', rg')"
  shows "(pc \<noteq> Building \<longrightarrow> rg_built rg' = rg_built rg)
       \<and> (pc = Building \<longrightarrow> built_ok rg' \<le> built_ok rg + (if is_storing pc' then 1 else 0))
       \<and> (is_storing pc \<longrightarrow> \<not> is_storing pc' \<longrightarrow>
             model_exists (get_method_spec wr (b_pipeline self)) (rg_models rg) = Inr False \<longrightarrow>
             model_exists (get_method_spec wr (b_pipeline self)) (rg_models rg') = Inr True)
       \<and> (\<not> is_storing pc \<longrightarrow> pc \<noteq> Building \<longrightarrow> \<not> is_storing pc')"
proof (cases pc)
  case Building
  obtain r rg1 where b: "build_model wr self config rg = (r, rg1)"
    by (cases "build_model wr self config rg")
  show ?thesis
    using assms Building b build_model_count [OF b]
    by (cases r) (auto simp: pc_step_def Let_def split: if_splits)
next
  case (Storing model_spec)
  show ?thesis
  proof (cases "store_model wr self model_spec rg")
    case (Inl e)
    then show ?thesis
      using assms Storing
        store_model_succeeds [of wr self rg False model_spec]
      by (auto simp: pc_step_def Let_def)
  next
    case (Inr rg1)
    then show ?thesis
      using assms Storing store_model_exists [OF Inr] store_model_built [OF Inr]
      by (auto simp: pc_step_def Let_def)
  qed
qed (use assms in \<open>auto simp: pc_step_def Let_def
      split: if_splits sum.splits bool.splits option.splits prod.splits\<close>)

lemma pc_step_settled:
  assumes "pc_step wr self config i (pc, lock, rg) = (pc', lock', rg')"
    and "wr_mode wr \<in> {''static'', ''dynamic''}"
    and "model_exists (get_method_spec wr (b_pipeline self)) (rg_models rg) = Inr True"
    and "\<not> found_missing pc"
  shows "rg' = rg \<and> \<not> found_missing pc'
       \<and> (\<forall>r. pc' = Done r \<longrightarrow>
             pc = Done r \<or> r = get_model (get_method_spec wr (b_pipeline self)) (b_pipeline self) (rg_models rg))"
  using assms
  by (cases pc)
     (auto simp: pc_step_def Let_def
           split: if_splits sum.splits bool.splits option.splits prod.splits)

lemma found_missing_holds_lock: "found_missing pc \<Longrightarrow> holds_lock pc"
  by (cases pc) auto

lemma is_storing_holds_lock: "is_storing pc \<Longrightarrow> holds_lock pc"
  by (cases pc) auto

lemma is_storing_found_missing: "is_storing pc \<Longrightarrow> found_missing pc"
  by (cases pc) auto

lemma thread_step_inv:
  assumes inv: "builder_inv wr callers owner n0 sy"
    and owners: "\<forall>c\<in>set callers. b_pipeline (fst c) = owner"
  shows "builder_inv wr callers owner n0 (thread_step wr callers i sy)"
proof (cases "i < length (sy_pcs sy) \<and> i < length callers")
  case False
  then have "thread_step wr callers i sy = sy"
    unfolding thread_step_def by (simp only: if_False)
  then show ?thesis using inv by simp
next
  case True
  let ?pcs = "sy_pcs sy"
  let ?ms = "get_method_spec wr owner"
  obtain pc' lock' rg' where st:
    "pc_step wr (fst (callers ! i)) (snd (callers ! i)) i (?pcs ! i, sy_lock sy, sy_registry sy) =
       (pc', lock', rg')"
    by (metis prod_cases3)
  have own: "b_pipeline (fst (callers ! i)) = owner"
    using owners True by simp
  have sy': "thread_step wr callers i sy =
      \<lparr>sy_registry = rg', sy_lock = lock', sy_pcs = ?pcs[i := pc']\<rparr>"
    using True st by (simp add: thread_step_def)
  have len: "length ?pcs = length callers"
    and lk: "\<forall>j<length ?pcs. holds_lock (?pcs ! j) \<longrightarrow> sy_lock sy = Some j"
    and mis: "\<forall>j<length ?pcs. found_missing (?pcs ! j) \<longrightarrow>
        model_exists ?ms (rg_models (sy_registry sy)) = Inr False"
    and cnt: "built_ok (sy_registry sy) \<le>
         n0 + (if model_exists ?ms (rg_models (sy_registry sy)) = Inr True
                  \<or> list_ex is_storing ?pcs then 1 else 0)"
    using inv by (simp_all add: builder_inv_def)
  have i: "i < length ?pcs" using True by simp
  have lk_i: "holds_lock (?pcs ! i) \<longrightarrow> sy_lock sy = Some i"
    using lk i by simp
  note L = pc_step_lock [OF st lk_i]
  have other_lock: "\<not> holds_lock (?pcs ! i) \<and> \<not> holds_lock pc' \<and> lock' = sy_lock sy"
    if "j < length ?pcs" "j \<noteq> i" "holds_lock (?pcs ! j)" for j
  proof -
    have "sy_lock sy = Some j" using lk that by simp
    then have "\<not> holds_lock (?pcs ! i)" using lk_i that by auto
    moreover have "\<not> holds_lock pc'" using L \<open>sy_lock sy = Some j\<close> calculation by auto
    ultimately show ?thesis using L by simp
  qed
  have c2: "\<forall>j<length (?pcs[i := pc']). holds_lock (?pcs[i := pc'] ! j) \<longrightarrow> lock' = Some j"
  proof (intro allI impI)
    fix j assume j: "j < length (?pcs[i := pc'])" and h: "holds_lock (?pcs[i := pc'] ! j)"
    show "lock' = Some j"
    proof (cases "j = i")
      case True
      then show ?thesis using h j L by simp
    next
      case False
      then have hj: "holds_lock (?pcs ! j)" using h j by simp
      then show ?thesis using other_lock [of j] lk j False by simp
    qed
  qed
  have c3: "\<forall>j<length (?pcs[i := pc']). found_missing (?pcs[i := pc'] ! j) \<longrightarrow>
        model_exists ?ms (rg_models rg') = Inr False"
  proof (intro allI impI)
    fix j assume j: "j < length (?pcs[i := pc'])" and h: "found_missing (?pcs[i := pc'] ! j)"
    show "model_exists ?ms (rg_models rg') = Inr False"
    proof (cases "j = i")
      case True
      then have "found_missing pc'" using h j by simp
      then show ?thesis
        using pc_step_missing [OF st] mis i own by simp
    next
      case False
      then have fj: "found_missing (?pcs ! j)" using h j by simp
      then have "\<not> holds_lock (?pcs ! i)"
        using other_lock [of j] j False found_missing_holds_lock by auto
      then have "\<not> is_storing (?pcs ! i)" using is_storing_holds_lock by blast
      then have "rg_models rg' = rg_models (sy_registry sy)"
        using pc_step_models [OF st] by simp
      then show ?thesis using mis fj j by simp
    qed
  qed
  note B = pc_step_built [OF st]
  have c4: "built_ok rg' \<le>
         n0 + (if model_exists ?ms (rg_models rg') = Inr True
                  \<or> list_ex is_storing (?pcs[i := pc']) then 1 else 0)"
  proof (cases "?pcs ! i = Building")
    case True
    have "model_exists ?ms (rg_models (sy_registry sy)) = Inr False"
      using mis i True by simp
    moreover have "\<not> list_ex is_storing ?pcs"
    proof
      assume "list_ex is_storing ?pcs"
      then obtain j where j: "j < length ?pcs" "is_storing (?pcs ! j)"
        by (auto simp: list_ex_length)
      then have "j \<noteq> i" using True by auto
      then show False
        using other_lock [of j] j is_storing_holds_lock True by auto
    qed
    ultimately have b0: "built_ok (sy_registry sy) \<le> n0"
      using cnt by simp
    have b1: "built_ok rg' \<le> built_ok (sy_registry sy) + (if is_storing pc' then 1 else 0)"
      using B True by simp
    show ?thesis
    proof (cases "is_storing pc'")
      case True
      then have "list_ex is_storing (?pcs[i := pc'])"
        using i by (auto simp: list_ex_length intro!: exI [of _ i])
      then show ?thesis using b0 b1 True by simp
    next
      case False
      then show ?thesis using b0 b1 by (simp split: if_splits)
    qed
  next
    case nb: False
    then have b: "built_ok rg' = built_ok (sy_registry sy)"
      using B by (simp add: built_ok_def)
    show ?thesis
    proof (cases "model_exists ?ms (rg_models (sy_registry sy)) = Inr True
             \<or> list_ex is_storing ?pcs")
      case False
      then show ?thesis using cnt b by (simp split: if_splits)
    next
      case E: True
      have "model_exists ?ms (rg_models rg') = Inr True
             \<or> list_ex is_storing (?pcs[i := pc'])"
      proof (cases "is_storing (?pcs ! i)")
        case True
        then have m0: "model_exists ?ms (rg_models (sy_registry sy)) = Inr False"
          using mis i is_storing_found_missing by blast
        show ?thesis
        proof (cases "is_storing pc'")
          case True
          then have "list_ex is_storing (?pcs[i := pc'])"
            using i by (auto simp: list_ex_length intro!: exI [of _ i])
          then show ?thesis by simp
        next
          case False
          then have "model_exists (get_method_spec wr (b_pipeline (fst (callers ! i))))
                (rg_models rg') = Inr True"
            using B True m0 own by simp
          then show ?thesis using own by simp
        qed
      next
        case ns: False
        then have m: "rg_models rg' = rg_models (sy_registry sy)"
          using pc_step_models [OF st] by simp
        show ?thesis
        proof (cases "model_exists ?ms (rg_models (sy_registry sy)) = Inr True")
          case True
          then show ?thesis using m by simp
        next
          case False
          then have "list_ex is_storing ?pcs" using E by simp
          then obtain j where j: "j < length ?pcs" "is_storing (?pcs ! j)"
            by (auto simp: list_ex_length)
          then have "j \<noteq> i" using ns by auto
          then have "is_storing (?pcs[i := pc'] ! j)" using j by simp
          then have "list_ex is_storing (?pcs[i := pc'])"
            using j by (auto simp: list_ex_length intro!: exI [of _ j])
          then show ?thesis by simp
        qed
      qed
      then show ?thesis using cnt b by (simp split: if_splits)
    qed
  qed
  show ?thesis
    unfolding sy' builder_inv_def using len c2 c3 c4 by simp
qed

lemma run_schedule_append:
  "run_schedule wr callers (xs @ ys) sy = run_schedule wr callers ys (run_schedule wr callers xs sy)"
  by (induction xs arbitrary: sy) auto

lemma run_schedule_inv:
  assumes "builder_inv wr callers owner n0 sy"
    and "\<forall>c\<in>set callers. b_pipeline (fst c) = owner"
  shows "builder_inv wr callers owner n0 (run_schedule wr callers sched sy)"
  using assms(1)
proof (induction sched arbitrary: sy)
  case Nil
  then show ?case by simp
next
  case (Cons i sched)
  show ?case
    using Cons.IH [OF thread_step_inv [OF Cons.prems assms(2)]] by simp
qed

lemma system_start_inv:
  "builder_inv wr callers owner (built_ok rg) (system_start rg (length callers))"
  by (simp add: builder_inv_def system_start_def list_ex_length)

lemma thread_step_settled:
  assumes inv: "builder_inv wr callers owner n0 sy"
    and owners: "\<forall>c\<in>set callers. b_pipeline (fst c) = owner"
    and mode: "wr_mode wr \<in> {''static'', ''dynamic''}"
    and ex: "model_exists (get_method_spec wr owner) (rg_models (sy_registry sy)) = Inr True"
  shows "sy_registry (thread_step wr callers i sy) = sy_registry sy
       \<and> length (sy_pcs (thread_step wr callers i sy)) = length (sy_pcs sy)
       \<and> (\<forall>j<length (sy_pcs sy). \<forall>r. sy_pcs (thread_step wr callers i sy) ! j = Done r \<longrightarrow>
             sy_pcs sy ! j = Done r
             \<or> r = get_model (get_method_spec wr owner) owner (rg_models (sy_registry sy)))"
proof (cases "i < length (sy_pcs sy) \<and> i < length callers")
  case False
  then have "thread_step wr callers i sy = sy"
    unfolding thread_step_def by (simp only: if_False)
  then show ?thesis by simp
next
  case True
  let ?pcs = "sy_pcs sy"
  obtain pc' lock' rg' where st:
    "pc_step wr (fst (callers ! i)) (snd (callers ! i)) i (?pcs ! i, sy_lock sy, sy_registry sy) =
       (pc', lock', rg')"
    by (metis prod_cases3)
  have own: "b_pipeline (fst (callers ! i)) = owner"
    using owners True by simp
  have sy': "thread_step wr callers i sy =
      \<lparr>sy_registry = rg', sy_lock = lock', sy_pcs = ?pcs[i := pc']\<rparr>"
    using True st by (simp add: thread_step_def)
  have "\<not> found_missing (?pcs ! i)"
    using inv ex True by (auto simp: builder_inv_def)
  then have S: "rg' = sy_registry sy \<and>
      (\<forall>r. pc' = Done r \<longrightarrow> ?pcs ! i = Done r
         \<or> r = get_model (get_method_spec wr owner) owner (rg_models (sy_registry sy)))"
    using pc_step_settled [OF st mode] ex own by simp
  show ?thesis
    unfolding sy' using S True by (auto simp: nth_list_update split: if_splits)
qed

lemma run_schedule_settled:
  assumes owners: "\<forall>c\<in>set callers. b_pipeline (fst c) = owner"
    and mode: "wr_mode wr \<in> {''static'', ''dynamic''}"
  shows "builder_inv wr callers owner n0 sy \<Longrightarrow>
     model_exists (get_method_spec wr owner) (rg_models (sy_registry sy)) = Inr True \<Longrightarrow>
     sy_registry (run_schedule wr callers sched sy) = sy_registry sy
       \<and> length (sy_pcs (run_schedule wr callers sched sy)) = length (sy_pcs sy)
       \<and> (\<forall>j<length (sy_pcs sy). \<forall>r. sy_pcs (run_schedule wr callers sched sy) ! j = Done r \<longrightarrow>
             sy_pcs sy ! j = Done r
             \<or> r = get_model (get_method_spec wr owner) owner (rg_models (sy_registry sy)))"
proof (induction sched arbitrary: sy)
  case Nil
  then show ?case by simp
next
  case (Cons i sched)
  let ?sy = "thread_step wr callers i sy"
  have one: "sy_registry ?sy = sy_registry sy
       \<and> length (sy_pcs ?sy) = length (sy_pcs sy)
       \<and> (\<forall>j<length (sy_pcs sy). \<forall>r. sy_pcs ?sy ! j = Done r \<longrightarrow>
             sy_pcs sy ! j = Done r
             \<or> r = get_model (get_method_spec wr owner) owner (rg_models (sy_registry sy)))"
    using thread_step_settled [OF Cons.prems(1) owners mode Cons.prems(2)] by simp
  have inv': "builder_inv wr callers owner n0 ?sy"
    using thread_step_inv [OF Cons.prems(1) owners] .
  have ex': "model_exists (get_method_spec wr owner) (rg_models (sy_registry ?sy)) = Inr True"
    using one Cons.prems(2) by simp
  have rest: "sy_registry (run_schedule wr callers sched ?sy) = sy_registry ?sy
       \<and> length (sy_pcs (run_schedule wr callers sched ?sy)) = length (sy_pcs ?sy)
       \<and> (\<forall>j<length (sy_pcs ?sy). \<forall>r. sy_pcs (run_schedule wr callers sched ?sy) ! j = Done r \<longrightarrow>
             sy_pcs ?sy ! j = Done r
             \<or> r = get_model (get_method_spec wr owner) owner (rg_models (sy_registry ?sy)))"
    using Cons.IH [OF inv' ex'] .
  show ?case
    using one rest by (simp, blast)
qed

lemma get_model_cached:
  "model_exists ms models = Inr True \<Longrightarrow> ms_mode ms \<noteq> ''global'' \<Longrightarrow>
   \<exists>spec. get_model ms (ms_pipeline ms) models = Inr spec"
  by (cases "ms_pipeline ms")
     (auto simp: model_exists_def get_model_def Let_def split: option.splits)

text \<open>One caller alone, stepping seven times, does what the wrapper does.\<close>

lemma model_wrapper_single_thread:
  "sy_pcs (resolve_concurrently wr [(self, config)] rg [0, 0, 0, 0, 0, 0, 0]) =
     [Done (fst (model_wrapper wr self config rg))]
   \<and> sy_registry (resolve_concurrently wr [(self, config)] rg [0, 0, 0, 0, 0, 0, 0]) =
       snd (model_wrapper wr self config rg)"
proof -
  note defs = resolve_concurrently_def system_start_def thread_step_def pc_step_def
    model_wrapper_def Let_def
  let ?ms = "get_method_spec wr (b_pipeline self)"
  consider (glob) "wr_mode wr = ''global''"
    | (unknown) "wr_mode wr \<noteq> ''global''" "wr_mode wr \<notin> set [''static'', ''dynamic'']"
    | (err) e where "wr_mode wr \<noteq> ''global''" "wr_mode wr \<in> set [''static'', ''dynamic'']"
        "model_exists ?ms (rg_models rg) = Inl e"
    | (found) "wr_mode wr \<noteq> ''global''" "wr_mode wr \<in> set [''static'', ''dynamic'']"
        "model_exists ?ms (rg_models rg) = Inr True"
    | (missing) "wr_mode wr \<noteq> ''global''" "wr_mode wr \<in> set [''static'', ''dynamic'']"
        "model_exists ?ms (rg_models rg) = Inr False"
    by (cases "model_exists ?ms (rg_models rg)") auto
  then show ?thesis
  proof cases
    case glob
    then show ?thesis by (simp add: defs)
  next
    case unknown
    then show ?thesis by (simp add: defs)
  next
    case err
    then show ?thesis by (simp add: defs)
  next
    case found
    then show ?thesis by (simp add: defs)
  next
    case missing
    obtain r rg' where b: "build_model wr self config rg = (r, rg')"
      by (cases "build_model wr self config rg")
    have m': "rg_models rg' = rg_models rg"
      using build_model_models [OF b] .
    show ?thesis
    proof (cases r)
      case (Inl e)
      then show ?thesis using missing b by (simp add: defs)
    next
      case (Inr model_spec)
      show ?thesis
      proof (cases "store_model wr self model_spec rg'")
        case (Inl e)
        then show ?thesis using missing b Inr by (simp add: defs)
      next
        case st: (Inr rg'')
        then show ?thesis using missing b Inr by (simp add: defs)
      qed
    qed
  qed
qed


text \<open>
  C3 (as amended). Any number of callers resolve the same model of the same owning
  pipeline, in any interleaving \<open>sched\<close>, from any registry. At most one call of the model
  method returns a model (a call that raises stores nothing, and the next caller calls
  the model method again). Once the directory holds the model, whatever the callers do
  next (\<open>sched'\<close>) leaves the registry as it is, so that the model method is not called
  again, and every caller that returns from then on returns the very model
  specification stored.
\<close>

theorem model_built_at_most_once:
  assumes "wr_mode wr \<in> {''static'', ''dynamic''}"
    and "\<forall>c\<in>set callers. b_pipeline (fst c) = owner"
  shows "built_ok (sy_registry (resolve_concurrently wr callers rg sched)) \<le> built_ok rg + 1
       \<and> (model_exists (get_method_spec wr owner)
             (rg_models (sy_registry (resolve_concurrently wr callers rg sched))) = Inr True \<longrightarrow>
            (\<exists>model_spec.
               get_model (get_method_spec wr owner) owner
                 (rg_models (sy_registry (resolve_concurrently wr callers rg sched))) = Inr model_spec
             \<and> sy_registry (resolve_concurrently wr callers rg (sched @ sched')) =
                 sy_registry (resolve_concurrently wr callers rg sched)
             \<and> (\<forall>j<length callers. \<forall>r.
                   sy_pcs (resolve_concurrently wr callers rg (sched @ sched')) ! j = Done r \<longrightarrow>
                   sy_pcs (resolve_concurrently wr callers rg sched) ! j = Done r
                   \<or> r = Inr model_spec)))"
proof -
  let ?S = "resolve_concurrently wr callers rg sched"
  let ?ms = "get_method_spec wr owner"
  have inv: "builder_inv wr callers owner (built_ok rg) ?S"
    unfolding resolve_concurrently_def
    using run_schedule_inv [OF system_start_inv assms(2)] .
  have app: "resolve_concurrently wr callers rg (sched @ sched') = run_schedule wr callers sched' ?S"
    by (simp add: resolve_concurrently_def run_schedule_append)
  have count: "built_ok (sy_registry ?S) \<le> built_ok rg + 1"
    using inv by (simp add: builder_inv_def split: if_splits)
  have len: "length (sy_pcs ?S) = length callers"
    using inv by (simp add: builder_inv_def)
  have settled: "\<exists>model_spec.
       get_model ?ms owner (rg_models (sy_registry ?S)) = Inr model_spec
     \<and> sy_registry (run_schedule wr callers sched' ?S) = sy_registry ?S
     \<and> (\<forall>j<length callers. \<forall>r.
           sy_pcs (run_schedule wr callers sched' ?S) ! j = Done r \<longrightarrow>
           sy_pcs ?S ! j = Done r \<or> r = Inr model_spec)"
    if ex: "model_exists ?ms (rg_models (sy_registry ?S)) = Inr True"
  proof -
    have "ms_mode ?ms \<noteq> ''global''" and "ms_pipeline ?ms = owner"
      using assms(1) by (auto simp: get_method_spec_def)
    then obtain model_spec where
      g: "get_model ?ms owner (rg_models (sy_registry ?S)) = Inr model_spec"
      using get_model_cached [OF ex] by auto
    show ?thesis
      using run_schedule_settled [OF assms(2) assms(1) inv ex, of sched'] g len by auto
  qed
  show ?thesis
    unfolding app using count settled by blast
qed

lemma ex_race_pcs:
  "sy_pcs (resolve_concurrently (ex_wrapper fc_one) ex_callers ex_registry
            ([0, 1, 0, 0, 0, 0, 1] @ [0, 0, 1, 1, 1, 1])) = [Done (Inr 5), Done (Inr 5)]"
  by code_simp

lemma ex_race_exists:
  "model_exists (get_method_spec (ex_wrapper fc_one) (Some 4))
     (rg_models (sy_registry (resolve_concurrently (ex_wrapper fc_one) ex_callers ex_registry
        [0, 1, 0, 0, 0, 0, 1]))) = Inr True"
  by code_simp

lemma ex_race_built:
  "built_ok (sy_registry (resolve_concurrently (ex_wrapper fc_one) ex_callers ex_registry
        [0, 1, 0, 0, 0, 0, 1])) = 1"
  by code_simp

theorem model_built_at_most_once_witness:
  "wr_mode (ex_wrapper fc_one) \<in> {''static'', ''dynamic''}
   \<and> list_all (\<lambda>c. b_pipeline (fst c) = Some 4) ex_callers
   \<and> model_exists (get_method_spec (ex_wrapper fc_one) (Some 4))
        (rg_models (sy_registry (resolve_concurrently (ex_wrapper fc_one) ex_callers ex_registry
           [0, 1, 0, 0, 0, 0, 1]))) = Inr True
   \<and> built_ok (sy_registry (resolve_concurrently (ex_wrapper fc_one) ex_callers ex_registry
        [0, 1, 0, 0, 0, 0, 1])) = 1
   \<and> sy_registry (resolve_concurrently (ex_wrapper fc_one) ex_callers ex_registry
        ([0, 1, 0, 0, 0, 0, 1] @ [0, 0, 1, 1, 1, 1])) =
       sy_registry (resolve_concurrently (ex_wrapper fc_one) ex_callers ex_registry
        [0, 1, 0, 0, 0, 0, 1])
   \<and> sy_pcs (resolve_concurrently (ex_wrapper fc_one) ex_callers ex_registry
            ([0, 1, 0, 0, 0, 0, 1] @ [0, 0, 1, 1, 1, 1])) = [Done (Inr 5), Done (Inr 5)]"
proof -
  have m: "wr_mode (ex_wrapper fc_one) \<in> {''static'', ''dynamic''}"
    by (simp add: ex_wrapper_def)
  have o: "\<forall>c\<in>set ex_callers. b_pipeline (fst c) = Some 4"
    by (simp add: ex_callers_def)
  show ?thesis
    using model_built_at_most_once [OF m o, of ex_registry "[0, 1, 0, 0, 0, 0, 1]"
        "[0, 0, 1, 1, 1, 1]"]
      m o ex_race_pcs ex_race_exists ex_race_built
    by (simp only: simp_thms list_all_iff) blast
qed

text \<open>
  The claim as it was worded, refuted: two callers resolve the same model of pipeline 4,
  one after the other. The model method raises for the first and is called again for
  the second: two calls for one key.
\<close>

theorem model_built_twice_counterexample:
  "map (b_pipeline \<circ> fst) ex_callers = [Some 4, Some 4]
   \<and> sy_pcs (resolve_concurrently (ex_wrapper []) ex_callers ex_registry
            [1, 1, 1, 1, 0, 0, 0, 0, 0, 0, 0]) = [Done (Inr 105), Done (Inl (Raised 3))]
   \<and> length (rg_built (sy_registry (resolve_concurrently (ex_wrapper []) ex_callers ex_registry
            [1, 1, 1, 1, 0, 0, 0, 0, 0, 0, 0]))) = 2"
  by code_simp

subsection \<open>Concatenating pipelines and appending actions\<close>

lemma wf_heap_bound:
  assumes "wf_heap h"
  shows "h_lists h r = Some xs \<Longrightarrow> r < h_next h"
    and "h_dicts h r = Some d \<Longrightarrow> r < h_next h"
    and "h_pipes h r = Some a \<Longrightarrow> r < h_next h"
  using assms unfolding wf_heap_def by (metis not_le option.distinct(1))+

lemma init_copy_plain:
  assumes "wf_heap h" and "h_pipes h p = Some a" and "h_lists h (p_action_list a) = Some xs"
  shows "init_copy p None None h =
           Inr (Suc (h_next h),
                h\<lparr>h_lists := (h_lists h)(h_next h \<mapsto> xs),
                  h_next := Suc (Suc (h_next h)),
                  h_pipes := (h_pipes h)(Suc (h_next h) \<mapsto> a\<lparr>p_action_list := h_next h\<rparr>)\<rparr>)"
  using assms
  by (cases a) (simp add: init_copy_def tag_last_action_def alloc_list_def alloc_pipe_def)

lemma wf_heap_copy:
  assumes "wf_heap h"
  shows "wf_heap (h\<lparr>h_lists := (h_lists h)(h_next h \<mapsto> xs),
                  h_next := Suc (Suc (h_next h)),
                  h_pipes := (h_pipes h)(Suc (h_next h) \<mapsto> n)\<rparr>)"
  using assms by (simp add: wf_heap_def)

lemma concat_pipeline_permitted:
  assumes "wf_heap h"
    and "h_pipes h pipe1 = Some a" and "h_lists h (p_action_list a) = Some xs"
    and "h_pipes h pipe2 = Some b" and "h_lists h (p_action_list b) = Some ys"
    and "\<not> (p_dataset a \<noteq> p_dataset b \<and> p_dataset a \<noteq> None \<and> p_dataset b \<noteq> None)"
  shows "\<exists>h'. concat_pipeline truthy pipe1 pipe2 h = Inr (Suc (h_next h), h')
         \<and> h_pipes h' (Suc (h_next h)) =
             Some (a\<lparr>p_action_list := h_next h,
                     p_variables := p_variables a ++ p_variables b,
                     p_dataset := py_or truthy (p_dataset a) (p_dataset b)\<rparr>)
         \<and> h_lists h' (h_next h) = Some (xs @ ys)
         \<and> (\<forall>r<h_next h. h_lists h' r = h_lists h r \<and> h_pipes h' r = h_pipes h r)
         \<and> h_dicts h' = h_dicts h"
proof -
  let ?k = "h_next h"
  let ?h1 = "h\<lparr>h_lists := (h_lists h)(?k \<mapsto> xs), h_next := Suc (Suc ?k),
               h_pipes := (h_pipes h)(Suc ?k \<mapsto> a\<lparr>p_action_list := ?k\<rparr>)\<rparr>"
  have b1: "pipe1 < ?k" "p_action_list a < ?k" "pipe2 < ?k" "p_action_list b < ?k"
    using wf_heap_bound [OF assms(1)] assms(2-5) by blast+
  have c1: "from_pipeline pipe1 None None h = Inr (Suc ?k, ?h1)"
    using init_copy_plain [OF assms(1-3)] by (simp add: from_pipeline_def)
  have wf1: "wf_heap ?h1" using wf_heap_copy [OF assms(1)] .
  have p2: "h_pipes ?h1 pipe2 = Some b" "h_lists ?h1 (p_action_list b) = Some ys"
    using b1 assms(4,5) by simp_all
  have c2: "from_pipeline pipe2 None None ?h1 =
      Inr (Suc (Suc (Suc ?k)),
           ?h1\<lparr>h_lists := (h_lists ?h1)(Suc (Suc ?k) \<mapsto> ys),
                h_next := Suc (Suc (Suc (Suc ?k))),
                h_pipes := (h_pipes ?h1)(Suc (Suc (Suc ?k)) \<mapsto> b\<lparr>p_action_list := Suc (Suc ?k)\<rparr>)\<rparr>)"
    using init_copy_plain [OF wf1 p2] by (simp add: from_pipeline_def)
  show ?thesis
    using assms(2-6) b1
    by (simp add: concat_pipeline_def c1 c2)
qed

text \<open>
  C7. When two pipelines may be concatenated, the concatenation returns a new pipeline
  whose action list is the list of the first followed by the list of the second, so its
  length is the sum of the two lengths. The two pipelines and their lists are as before,
  as is every list, pipeline and action record that existed; the new list is an object
  of its own.
\<close>

theorem concat_length_and_frame:
  assumes "wf_heap h"
    and "h_pipes h pipe1 = Some a" and "h_lists h (p_action_list a) = Some xs"
    and "h_pipes h pipe2 = Some b" and "h_lists h (p_action_list b) = Some ys"
    and "\<not> (p_dataset a \<noteq> p_dataset b \<and> p_dataset a \<noteq> None \<and> p_dataset b \<noteq> None)"
  shows "\<exists>new_p h' n zs.
           concat_pipeline truthy pipe1 pipe2 h = Inr (new_p, h')
         \<and> h_pipes h' new_p = Some n
         \<and> h_lists h' (p_action_list n) = Some zs
         \<and> zs = xs @ ys
         \<and> length zs = length xs + length ys
         \<and> h_pipes h' pipe1 = Some a \<and> h_lists h' (p_action_list a) = Some xs
         \<and> h_pipes h' pipe2 = Some b \<and> h_lists h' (p_action_list b) = Some ys
         \<and> p_action_list n \<noteq> p_action_list a \<and> p_action_list n \<noteq> p_action_list b
         \<and> (\<forall>r<h_next h. h_lists h' r = h_lists h r \<and> h_pipes h' r = h_pipes h r)
         \<and> h_dicts h' = h_dicts h"
proof -
  have b1: "pipe1 < h_next h" "p_action_list a < h_next h"
    "pipe2 < h_next h" "p_action_list b < h_next h"
    using wf_heap_bound [OF assms(1)] assms(2-5) by blast+
  obtain h' where h': "concat_pipeline truthy pipe1 pipe2 h = Inr (Suc (h_next h), h')"
    "h_pipes h' (Suc (h_next h)) =
       Some (a\<lparr>p_action_list := h_next h,
               p_variables := p_variables a ++ p_variables b,
               p_dataset := py_or truthy (p_dataset a) (p_dataset b)\<rparr>)"
    "h_lists h' (h_next h) = Some (xs @ ys)"
    "\<forall>r<h_next h. h_lists h' r = h_lists h r \<and> h_pipes h' r = h_pipes h r"
    "h_dicts h' = h_dicts h"
    using concat_pipeline_permitted [OF assms, of truthy] by blast
  show ?thesis
    using h' b1 assms(2-5) by auto
qed

lemma ex_heap_wf: "wf_heap ex_heap"
  by (auto simp: wf_heap_def ex_heap_def)

theorem concat_length_and_frame_witness:
  "\<exists>new_p h' n.
     concat_pipeline (\<lambda>d. True) 5 6 ex_heap = Inr (new_p, h')
   \<and> h_pipes h' new_p = Some n
   \<and> h_lists h' (p_action_list n) = Some [2, 3, 4]
   \<and> length [2, 3, 4 :: nat] = length [2 :: nat] + length [3, 4 :: nat]
   \<and> h_lists h' 0 = Some [2] \<and> h_lists h' 1 = Some [3, 4]
   \<and> h_dicts h' = h_dicts ex_heap"
proof -
  have p1: "h_pipes ex_heap 5 = Some \<lparr>p_dataset = Some 9, p_config = None, p_action_list = 0,
      p_variables = Map.empty, p_lazy_run = None\<rparr>"
    by (simp add: ex_heap_def)
  have l1: "h_lists ex_heap (p_action_list \<lparr>p_dataset = Some (9::nat), p_config = None :: nat option,
      p_action_list = 0, p_variables = Map.empty :: string \<rightharpoonup> nat, p_lazy_run = None :: nat option\<rparr>) = Some [2]"
    by (simp add: ex_heap_def)
  have p2: "h_pipes ex_heap 6 = Some \<lparr>p_dataset = None, p_config = None, p_action_list = 1,
      p_variables = Map.empty, p_lazy_run = None\<rparr>"
    by (simp add: ex_heap_def)
  have l2: "h_lists ex_heap (p_action_list \<lparr>p_dataset = None :: nat option, p_config = None :: nat option,
      p_action_list = 1, p_variables = Map.empty :: string \<rightharpoonup> nat, p_lazy_run = None :: nat option\<rparr>) = Some [3, 4]"
    by (simp add: ex_heap_def)
  show ?thesis
    using concat_length_and_frame [OF ex_heap_wf p1 l1 p2 l2, of "\<lambda>d. True"]
    by (simp, blast)
qed

lemma concat_pipeline_conflict:
  assumes "h_pipes h pipe1 = Some a" and "h_pipes h pipe2 = Some b"
    and "p_dataset a \<noteq> p_dataset b \<and> p_dataset a \<noteq> None \<and> p_dataset b \<noteq> None"
  shows "concat_pipeline truthy pipe1 pipe2 h =
           Inl (ValueError ''Cannot add pipelines with different datasets'')"
  using assms by (simp add: concat_pipeline_def)

text \<open>
  The sources in a concatenation. It fails exactly when the two pipelines have sources
  that are both present and different, and then with the error of the conflicting
  sources. Otherwise it succeeds, and the source of the result is what \<^verbatim>\<open>or\<close> picks.
\<close>

lemma concat_pipeline_sources:
  assumes "wf_heap h"
    and "h_pipes h pipe1 = Some a" and "h_lists h (p_action_list a) = Some xs"
    and "h_pipes h pipe2 = Some b" and "h_lists h (p_action_list b) = Some ys"
  shows "((\<exists>e. concat_pipeline truthy pipe1 pipe2 h = Inl e) \<longleftrightarrow>
            p_dataset a \<noteq> p_dataset b \<and> p_dataset a \<noteq> None \<and> p_dataset b \<noteq> None)
       \<and> (\<forall>e. concat_pipeline truthy pipe1 pipe2 h = Inl e \<longrightarrow>
              e = ValueError ''Cannot add pipelines with different datasets'')
       \<and> (\<not> (p_dataset a \<noteq> p_dataset b \<and> p_dataset a \<noteq> None \<and> p_dataset b \<noteq> None) \<longrightarrow>
            (\<exists>new_p h' n. concat_pipeline truthy pipe1 pipe2 h = Inr (new_p, h')
               \<and> h_pipes h' new_p = Some n
               \<and> p_dataset n = py_or truthy (p_dataset a) (p_dataset b)))"
proof (cases "p_dataset a \<noteq> p_dataset b \<and> p_dataset a \<noteq> None \<and> p_dataset b \<noteq> None")
  case True
  have "concat_pipeline truthy pipe1 pipe2 h =
      Inl (ValueError ''Cannot add pipelines with different datasets'')"
    using concat_pipeline_conflict [OF assms(2,4) True] .
  then show ?thesis using True by auto
next
  case False
  obtain h' where h': "concat_pipeline truthy pipe1 pipe2 h = Inr (Suc (h_next h), h')"
    "h_pipes h' (Suc (h_next h)) =
       Some (a\<lparr>p_action_list := h_next h,
               p_variables := p_variables a ++ p_variables b,
               p_dataset := py_or truthy (p_dataset a) (p_dataset b)\<rparr>)"
    using concat_pipeline_permitted [OF assms False, of truthy] by blast
  then show ?thesis using False by auto
qed

lemma py_or_truthy:
  "\<forall>d. a = Some d \<longrightarrow> truthy d \<Longrightarrow>
   py_or truthy a b = (if a \<noteq> None then a else b)"
  by (cases a) (simp_all add: py_or_def)

text \<open>
  C9 (the code at a failing input). The first pipeline is bound to a source that is not
  null and counts as false, the second pipeline to none. The two sources do not conflict
  and the concatenation succeeds, but its result is bound to no source: \<^verbatim>\<open>or\<close> passes over
  the source of the first pipeline, which the test before it, made with
  \<^verbatim>\<open>is not None\<close>, counts as present. With the two pipelines in the other order the result
  is bound to the source.
\<close>

theorem concat_loses_falsy_source:
  "get_dataset 5 ex_heap_empty_source = Inr (Some 0)
   \<and> get_dataset 6 ex_heap_empty_source = Inr None
   \<and> \<not> ex_truthy 0
   \<and> concat_dataset ex_truthy 5 6 ex_heap_empty_source = Inr None
   \<and> concat_dataset ex_truthy 6 5 ex_heap_empty_source = Inr (Some 0)"
proof -
  let ?a = "\<lparr>p_dataset = Some (0::nat), p_config = None :: nat option, p_action_list = 0,
                p_variables = Map.empty :: string \<rightharpoonup> nat, p_lazy_run = None :: nat option\<rparr>"
  let ?c = "\<lparr>p_dataset = None :: nat option, p_config = None :: nat option, p_action_list = 1,
                p_variables = Map.empty :: string \<rightharpoonup> nat, p_lazy_run = None :: nat option\<rparr>"
  let ?h = ex_heap_empty_source
  have wf: "wf_heap ?h"
    by (auto simp: wf_heap_def ex_heap_empty_source_def ex_heap_def)
  have pa: "h_pipes ?h 5 = Some ?a" and la: "h_lists ?h (p_action_list ?a) = Some [2]"
    and pc: "h_pipes ?h 6 = Some ?c" and lc: "h_lists ?h (p_action_list ?c) = Some [3, 4]"
    by (simp_all add: ex_heap_empty_source_def ex_heap_def)
  have one: "concat_dataset ex_truthy 5 6 ?h = Inr None"
    using concat_pipeline_permitted [OF wf pa la pc lc, of ex_truthy]
    by (auto simp: concat_dataset_def get_dataset_def py_or_def ex_truthy_def)
  have other: "concat_dataset ex_truthy 6 5 ?h = Inr (Some 0)"
    using concat_pipeline_permitted [OF wf pc lc pa la, of ex_truthy]
    by (auto simp: concat_dataset_def get_dataset_def py_or_def ex_truthy_def)
  show ?thesis
    using pa pc one other by (simp add: get_dataset_def ex_truthy_def)
qed

text \<open>
  C8. Appending an action to a pipeline returns a new pipeline whose action list is the
  list of the original followed by the new record, which holds the name, the arguments
  and neither a probability nor a repeat count. The original pipeline has its list as
  before the append, in a list object that is not the one of the new pipeline, and no
  record that existed is changed.
\<close>

theorem call_action_copy_on_append:
  assumes "wf_heap h"
    and "h_pipes h p = Some a" and "h_lists h (p_action_list a) = Some xs"
    and "is_batch_method name"
  shows "\<exists>new_p h' n a' d.
           call_action is_batch_method p name args kwargs h = Inr (new_p, h')
         \<and> h_pipes h' new_p = Some n
         \<and> h_lists h' (p_action_list n) = Some (xs @ [d])
         \<and> h_dicts h' d = Some [''name'' \<mapsto> PStr name, ''args'' \<mapsto> PTuple args,
                                 ''kwargs'' \<mapsto> PDict kwargs, ''proba'' \<mapsto> PNone,
                                 ''repeat'' \<mapsto> PNone]
         \<and> h_pipes h' p = Some a'
         \<and> h_lists h' (p_action_list a') = Some xs
         \<and> a' = a\<lparr>p_action_list := p_action_list a'\<rparr>
         \<and> new_p \<noteq> p
         \<and> p_action_list n \<noteq> p_action_list a \<and> p_action_list n \<noteq> p_action_list a'
         \<and> (\<forall>r<h_next h. h_dicts h' r = h_dicts h r)"
proof -
  let ?k = "h_next h"
  have b: "p < ?k" "p_action_list a < ?k"
    using wf_heap_bound [OF assms(1)] assms(2,3) by blast+
  have n: "h_lists h ?k = None" "h_dicts h ?k = None" "h_pipes h ?k = None"
    using assms(1) by (simp_all add: wf_heap_def)
  let ?d = "[''name'' \<mapsto> PStr name] :: ('a, 'b) pydict"
  let ?h1 = "h\<lparr>h_dicts := (h_dicts h)(?k \<mapsto> ?d), h_next := Suc ?k,
               h_lists := (h_lists h)(p_action_list a \<mapsto> xs @ [?k])\<rparr>"
  have g: "getattr_action is_batch_method p name h = Inr ?h1"
    using assms(2-4) by (simp add: getattr_action_def alloc_dict_def)
  let ?d' = "[''name'' \<mapsto> PStr name, ''args'' \<mapsto> PTuple args, ''kwargs'' \<mapsto> PDict kwargs,
              ''proba'' \<mapsto> PNone, ''repeat'' \<mapsto> PNone] :: ('a, 'b) pydict"
  let ?h2 = "?h1\<lparr>h_dicts := (h_dicts ?h1)(?k \<mapsto> ?d')\<rparr>"
  have wf2: "wf_heap ?h2"
    using assms(1) b by (auto simp: wf_heap_def)
  have p2: "h_pipes ?h2 p = Some a" "h_lists ?h2 (p_action_list a) = Some (xs @ [?k])"
    using assms(2) by simp_all
  have c: "from_pipeline p None None ?h2 =
      Inr (Suc (h_next ?h2),
           ?h2\<lparr>h_lists := (h_lists ?h2)(h_next ?h2 \<mapsto> xs @ [?k]),
                h_next := Suc (Suc (h_next ?h2)),
                h_pipes := (h_pipes ?h2)(Suc (h_next ?h2) \<mapsto> a\<lparr>p_action_list := h_next ?h2\<rparr>)\<rparr>)"
    using init_copy_plain [OF wf2 p2] by (simp add: from_pipeline_def)
  have "\<exists>h'. append_action p args kwargs ?h1 = Inr (Suc (Suc ?k), h')
      \<and> h_pipes h' (Suc (Suc ?k)) = Some (a\<lparr>p_action_list := Suc ?k\<rparr>)
      \<and> h_lists h' (Suc ?k) = Some (xs @ [?k])
      \<and> h_dicts h' ?k = Some ?d'
      \<and> h_pipes h' p = Some (a\<lparr>p_action_list := Suc (Suc (Suc ?k))\<rparr>)
      \<and> h_lists h' (Suc (Suc (Suc ?k))) = Some xs
      \<and> (\<forall>r<?k. h_dicts h' r = h_dicts h r)"
    using assms(2) b c
    by (simp add: append_action_def alloc_list_def Let_def)
  then show ?thesis
    using b by (auto simp: call_action_def g)
qed

theorem call_action_copy_on_append_witness:
  "\<exists>new_p h' n a' d.
     call_action (\<lambda>name. name = ''resize'') 6 ''resize'' [1] [] ex_heap = Inr (new_p, h')
   \<and> h_pipes h' new_p = Some n
   \<and> h_lists h' (p_action_list n) = Some [3, 4, d]
   \<and> h_dicts h' d = Some [''name'' \<mapsto> PStr ''resize'', ''args'' \<mapsto> PTuple [1],
                           ''kwargs'' \<mapsto> PDict [], ''proba'' \<mapsto> PNone, ''repeat'' \<mapsto> PNone]
   \<and> h_pipes h' 6 = Some a'
   \<and> h_lists h' (p_action_list a') = Some [3, 4]
   \<and> p_action_list n \<noteq> p_action_list a'"
proof -
  let ?c = "\<lparr>p_dataset = None :: nat option, p_config = None :: nat option, p_action_list = 1,
                p_variables = Map.empty :: string \<rightharpoonup> nat, p_lazy_run = None :: nat option\<rparr>"
  have pc: "h_pipes ex_heap 6 = Some ?c" and lc: "h_lists ex_heap (p_action_list ?c) = Some [3, 4]"
    by (simp_all add: ex_heap_def)
  have m: "(\<lambda>name. name = ''resize'') ''resize''" by simp
  show ?thesis
    using call_action_copy_on_append [OF ex_heap_wf pc lc,
        of "\<lambda>name. name = ''resize''" "''resize''" "[1]" "[]"]
    by (simp, blast)
qed


end
